theory Spec2Isabelle
  imports Complex_Main "HOL-Library.Multiset" "HOL-Library.Log_Nat"
begin

section \<open>Python values\<close>

text \<open>
  The repository is Python. A \<open>str\<close> is modelled as a \<open>string\<close>: one list element
  per Python character, so that \<open>length\<close> is Python's \<open>len\<close>. Values that come out of
  \<open>json.loads\<close> (and the dictionaries the code builds from them) are modelled by the
  datatype \<open>json\<close>. A \<open>dict\<close> is an association list in insertion order, as
  Python keeps it.
\<close>

datatype json =
    JNull
  | JBool bool
  | JInt int
  | JFloat rat
  | JStr string
  | JArr "json list"
  | JObj "(string \<times> json) list"

text \<open>\<open>isinstance(x, dict)\<close> and \<open>isinstance(x, list)\<close>.\<close>

fun is_dict :: "json \<Rightarrow> bool" where
  "is_dict (JObj d) = True"
| "is_dict x = False"

fun the_dict :: "json \<Rightarrow> (string \<times> json) list" where
  "the_dict (JObj d) = d"
| "the_dict x = []"

fun is_list :: "json \<Rightarrow> bool" where
  "is_list (JArr xs) = True"
| "is_list x = False"

text \<open>Truthiness of a value, as \<open>if x:\<close>, \<open>not x\<close> and \<open>x or y\<close> read it.\<close>

fun truthy :: "json \<Rightarrow> bool" where
  "truthy JNull = False"
| "truthy (JBool b) = b"
| "truthy (JInt i) = (i \<noteq> 0)"
| "truthy (JFloat r) = (r \<noteq> 0)"
| "truthy (JStr s) = (s \<noteq> [])"
| "truthy (JArr xs) = (xs \<noteq> [])"
| "truthy (JObj d) = (d \<noteq> [])"

text \<open>
  \<open>d.get(k)\<close> is \<open>dict_get d k\<close> (with \<open>None\<close> for Python's \<open>None\<close> default),
  \<open>k in d\<close> is \<open>dict_has d k\<close>, and \<open>d[k] = v\<close> is \<open>dict_set k v d\<close>: an existing
  key keeps its place and gets the new value, a new key goes to the end.
\<close>

definition dict_get :: "(string \<times> 'v) list \<Rightarrow> string \<Rightarrow> 'v option" where
  "dict_get d k = map_of d k"

definition dict_has :: "(string \<times> 'v) list \<Rightarrow> string \<Rightarrow> bool" where
  "dict_has d k = (map_of d k \<noteq> None)"

fun dict_set :: "string \<Rightarrow> 'v \<Rightarrow> (string \<times> 'v) list \<Rightarrow> (string \<times> 'v) list" where
  "dict_set k v [] = [(k, v)]"
| "dict_set k v (p # ps) = (if fst p = k then (k, v) # ps else p # dict_set k v ps)"

text \<open>\<open>str(n)\<close> for a non-negative integer, as an f-string prints it.\<close>

definition digit_char :: "nat \<Rightarrow> char" where
  "digit_char d = ''0123456789'' ! d"

fun str_of_nat :: "nat \<Rightarrow> string" where
  "str_of_nat n = (if n < 10 then [digit_char n] else str_of_nat (n div 10) @ [digit_char (n mod 10)])"

declare str_of_nat.simps [simp del]

lemma map_of_dict_set: "map_of (dict_set k v d) = (map_of d)(k \<mapsto> v)"
  by (induction d) (auto simp: fun_eq_iff)

lemma keys_dict_set:
  "map fst (dict_set k v d) = (if k \<in> fst ` set d then map fst d else map fst d @ [k])"
  by (induction d) auto

lemma dict_set_absent: "k \<notin> fst ` set d \<Longrightarrow> dict_set k v d = d @ [(k, v)]"
  by (induction d) auto

section \<open>Structure transformer (filing\_parser\_pipeline.py)\<close>

text \<open>
  \<open>transform_sections\<close>: the loop over \<open>enumerate(sections_obj)\<close> of the list branch is
  \<open>transform_sections_list\<close>, started at index 0; the loop over \<open>sections_obj.items()\<close>
  of the dict branch is \<open>transform_sections_items\<close>. No operation of the source can
  raise on a JSON value, so the model has no error branch.
\<close>

fun transform_sections_list :: "nat \<Rightarrow> json list \<Rightarrow> json list" where
  "transform_sections_list idx [] = []"
| "transform_sections_list idx (JObj sec # rest) =
     (if \<not> dict_has sec ''section_id''
      then JObj (dict_set ''section_id'' (JStr (''section_'' @ str_of_nat idx)) sec)
      else JObj sec) # transform_sections_list (Suc idx) rest"
| "transform_sections_list idx (sec # rest) = transform_sections_list (Suc idx) rest"

fun transform_sections_items :: "(string \<times> json) list \<Rightarrow> json list" where
  "transform_sections_items [] = []"
| "transform_sections_items ((key, JObj v) # rest) =
     JObj (dict_set ''section_id'' (JStr key) v) # transform_sections_items rest"
| "transform_sections_items ((key, v) # rest) =
     JObj [(''section_id'', JStr key), (''value'', v)] # transform_sections_items rest"

fun transform_sections :: "json \<Rightarrow> json list" where
  "transform_sections (JArr xs) = transform_sections_list 0 xs"
| "transform_sections (JObj d) = transform_sections_items d"
| "transform_sections x = []"

text \<open>
  \<open>transform_parts\<close>. \<open>part.get("sections")\<close> of a part without that key is \<open>None\<close>,
  which \<open>transform_sections\<close> maps to the empty list. The dict comprehension that drops
  the key \<open>sections\<close> is a \<open>filter\<close>.
\<close>

definition get_or_none :: "(string \<times> json) list \<Rightarrow> string \<Rightarrow> json" where
  "get_or_none d k = (case dict_get d k of None \<Rightarrow> JNull | Some v \<Rightarrow> v)"

definition py_or :: "json \<Rightarrow> json \<Rightarrow> json" where
  "py_or a b = (if truthy a then a else b)"

definition transform_part_of_list :: "(string \<times> json) list \<Rightarrow> json" where
  "transform_part_of_list part =
     (let part_name = get_or_none part ''part_name'';
          sections = transform_sections (get_or_none part ''sections'');
          base = filter (\<lambda>(k, v). k \<noteq> ''sections'') part;
          base = dict_set ''sections'' (JArr sections) base;
          base = (if \<not> truthy (get_or_none base ''part_name'')
                  then dict_set ''part_name'' (py_or part_name (JStr ''Part'')) base
                  else base)
      in JObj base)"

fun transform_parts_list :: "json list \<Rightarrow> json list" where
  "transform_parts_list [] = []"
| "transform_parts_list (JObj part # rest) = transform_part_of_list part # transform_parts_list rest"
| "transform_parts_list (part # rest) = transform_parts_list rest"

definition transform_part_of_item :: "string \<Rightarrow> json \<Rightarrow> json" where
  "transform_part_of_item key v =
     (case v of
        JObj d \<Rightarrow>
          (let part_name = py_or (get_or_none d ''part_name'') (JStr key);
               sections = transform_sections (get_or_none d ''sections'');
               base = filter (\<lambda>(k, v). k \<noteq> ''sections'') d;
               base = dict_set ''part_name'' part_name base;
               base = dict_set ''sections'' (JArr sections) base
           in JObj base)
      | _ \<Rightarrow> JObj [(''part_name'', JStr key), (''value'', v), (''sections'', JArr [])])"

fun transform_parts :: "json \<Rightarrow> json list" where
  "transform_parts (JArr xs) = transform_parts_list xs"
| "transform_parts (JObj d) = map (\<lambda>(key, v). transform_part_of_item key v) d"
| "transform_parts x = []"

subsection \<open>What the transformer keeps and what it drops\<close>

lemma transform_sections_list_enumerate:
  "transform_sections_list idx xs =
     map (\<lambda>(i, sec). if dict_has (the_dict sec) ''section_id'' then sec
                       else JObj (the_dict sec @ [(''section_id'', JStr (''section_'' @ str_of_nat i))]))
         (filter (\<lambda>(i, sec). is_dict sec) (enumerate idx xs))"
  by (induction idx xs rule: transform_sections_list.induct)
     (auto simp: dict_has_def dict_set_absent map_of_eq_None_iff)

lemma length_transform_sections_items: "length (transform_sections_items d) = length d"
  by (induction d rule: transform_sections_items.induct) auto

lemma nth_transform_sections_items:
  "i < length d \<Longrightarrow> \<exists>obj. transform_sections_items d ! i = JObj obj
      \<and> dict_get obj ''section_id'' = Some (JStr (fst (d ! i)))"
proof (induction d arbitrary: i rule: transform_sections_items.induct)
  case 1
  then show ?case by simp
next
  case (2 key v rest)
  then show ?case by (cases i) (auto simp: dict_get_def map_of_dict_set)
qed (case_tac i; auto simp: dict_get_def)+

lemma transform_parts_list_filter:
  "transform_parts_list xs = map (\<lambda>p. transform_part_of_list (the_dict p)) (filter is_dict xs)"
  by (induction xs rule: transform_parts_list.induct) auto

text \<open>
  Claim C10. \<open>transform_sections\<close> returns the empty list for a value that is neither a
  list nor a dict. For a list it returns the dict elements only, in order, each with
  \<open>section_id = section_<index>\<close> (the index in the input list) appended where the key
  is missing and unchanged otherwise. For a dict it returns one object per item, whose
  \<open>section_id\<close> is the item's key. \<open>transform_parts\<close> of a list transforms the dict
  elements only. Both are total functions: no input makes them raise.
\<close>

theorem transform_sections_total_lossy:
  "(\<not> is_list x \<and> \<not> is_dict x \<longrightarrow> transform_sections x = [] \<and> transform_parts x = [])
   \<and> transform_sections (JArr xs) =
       map (\<lambda>(i, sec). if dict_has (the_dict sec) ''section_id'' then sec
                         else JObj (the_dict sec @ [(''section_id'', JStr (''section_'' @ str_of_nat i))]))
           (filter (\<lambda>(i, sec). is_dict sec) (enumerate 0 xs))
   \<and> length (transform_sections (JObj d)) = length d
   \<and> (\<forall>i < length d. \<exists>obj. transform_sections (JObj d) ! i = JObj obj
         \<and> dict_get obj ''section_id'' = Some (JStr (fst (d ! i))))
   \<and> transform_parts (JArr ps) = map (\<lambda>p. transform_part_of_list (the_dict p)) (filter is_dict ps)"
proof -
  have "\<not> is_list x \<and> \<not> is_dict x \<longrightarrow> transform_sections x = [] \<and> transform_parts x = []"
    by (cases x) auto
  moreover have "\<forall>i < length d. \<exists>obj. transform_sections (JObj d) ! i = JObj obj
         \<and> dict_get obj ''section_id'' = Some (JStr (fst (d ! i)))"
    using nth_transform_sections_items by simp
  ultimately show ?thesis
    by (simp add: transform_sections_list_enumerate length_transform_sections_items
        transform_parts_list_filter)
qed

theorem transform_sections_total_lossy_witness:
  "transform_sections (JInt 3) = [] \<and> transform_parts (JInt 3) = []
   \<and> transform_sections (JArr [JObj [(''content'', JStr ''a'')], JStr ''junk'',
                                 JObj [(''section_id'', JStr ''s'')], JObj []]) =
       [JObj [(''content'', JStr ''a''), (''section_id'', JStr ''section_0'')],
        JObj [(''section_id'', JStr ''s'')],
        JObj [(''section_id'', JStr ''section_3'')]]
   \<and> (\<exists>obj. transform_sections (JObj [(''k'', JObj [(''content'', JStr ''a'')]), (''j'', JNull)]) ! 1 = JObj obj
         \<and> dict_get obj ''section_id'' = Some (JStr ''j''))
   \<and> transform_parts (JArr [JInt 1, JObj [(''part_name'', JStr ''Part I'')]]) =
       [JObj [(''part_name'', JStr ''Part I''), (''sections'', JArr [])]]"
  using transform_sections_total_lossy [of "JInt 3"
      "[JObj [(''content'', JStr ''a'')], JStr ''junk'', JObj [(''section_id'', JStr ''s'')], JObj []]"
      "[(''k'', JObj [(''content'', JStr ''a'')]), (''j'', JNull)]"
      "[JInt 1, JObj [(''part_name'', JStr ''Part I'')]]"]
  by (simp add: enumerate_eq_zip dict_has_def str_of_nat.simps digit_char_def
      transform_part_of_list_def get_or_none_def dict_get_def py_or_def)

section \<open>Exceptions\<close>

text \<open>
  A Python exception is a value: its class and its message (\<open>str(e)\<close>). A function
  that can raise returns \<open>exn + 'a\<close>, with \<open>Inl\<close> for the exception.
\<close>

datatype exn =
    AttributeError string
  | TypeError string
  | KeyError string
  | ValueError string
  | IndexError string
  | Exception string

fun str_exn :: "exn \<Rightarrow> string" where
  "str_exn (AttributeError m) = m"
| "str_exn (TypeError m) = m"
| "str_exn (KeyError k) = [CHR 0x27] @ k @ [CHR 0x27]"
| "str_exn (ValueError m) = m"
| "str_exn (IndexError m) = m"
| "str_exn (Exception m) = m"

definition bind_err :: "exn + 'a \<Rightarrow> ('a \<Rightarrow> exn + 'b) \<Rightarrow> exn + 'b" where
  "bind_err m f = (case m of Inl e \<Rightarrow> Inl e | Inr v \<Rightarrow> f v)"

lemma bind_err_simps [simp]:
  "bind_err (Inl e) f = Inl e"
  "bind_err (Inr v) f = f v"
  by (simp_all add: bind_err_def)

lemma bind_err_eq_Inr: "bind_err m f = Inr y \<longleftrightarrow> (\<exists>v. m = Inr v \<and> f v = Inr y)"
  by (cases m) auto

text \<open>
  Operations that raise on the wrong type: \<open>x.get(k, default)\<close> (only a dict has
  \<open>get\<close>), \<open>k in x\<close> for a string \<open>k\<close> (key of a dict, element of a list, substring
  of a string; any other value is not iterable), \<open>for s in x\<close> and \<open>x.items()\<close>.
\<close>

fun contains :: "string \<Rightarrow> string \<Rightarrow> bool" where
  "contains p [] = (p = [])"
| "contains p (c # cs) = (take (length p) (c # cs) = p \<or> contains p cs)"

fun py_get :: "json \<Rightarrow> string \<Rightarrow> json \<Rightarrow> exn + json" where
  "py_get (JObj d) k dflt = Inr (case dict_get d k of None \<Rightarrow> dflt | Some v \<Rightarrow> v)"
| "py_get x k dflt = Inl (AttributeError ''object has no attribute get'')"

fun py_in :: "string \<Rightarrow> json \<Rightarrow> exn + bool" where
  "py_in k (JObj d) = Inr (dict_has d k)"
| "py_in k (JArr xs) = Inr (JStr k \<in> set xs)"
| "py_in k (JStr s) = Inr (contains k s)"
| "py_in k x = Inl (TypeError ''argument is not iterable'')"

fun py_iter :: "json \<Rightarrow> exn + json list" where
  "py_iter (JArr xs) = Inr xs"
| "py_iter (JObj d) = Inr (map (\<lambda>(k, v). JStr k) d)"
| "py_iter (JStr s) = Inr (map (\<lambda>c. JStr [c]) s)"
| "py_iter x = Inl (TypeError ''object is not iterable'')"

fun py_items :: "json \<Rightarrow> exn + (string \<times> json) list" where
  "py_items (JObj d) = Inr d"
| "py_items x = Inl (AttributeError ''object has no attribute items'')"

section \<open>Incremental result combiner (proto-3/10-k\_modified.py)\<close>

text \<open>\<open>self.section_to_category\<close>, as \<open>__init__\<close> sets it.\<close>

definition part1 :: string where "part1 = ''Part I: Business and Risk Factors''"
definition part2 :: string where "part2 = ''Part II: Financial Information''"
definition part3 :: string where "part3 = ''Part III: Governance''"
definition part4 :: string where "part4 = ''Part IV: Exhibits and Schedules''"

definition section_to_category :: "(string \<times> string) list" where
  "section_to_category =
    [(''Item 1'', part1), (''Item 1A'', part1), (''Item 1B'', part1), (''Item 2'', part1),
     (''Item 3'', part1), (''Item 4'', part1),
     (''Item 5'', part2), (''Item 6'', part2), (''Item 7'', part2), (''Item 7A'', part2),
     (''Item 8'', part2), (''Item 9'', part2), (''Item 9A'', part2), (''Item 9B'', part2),
     (''Item 9C'', part2),
     (''Item 10'', part3), (''Item 11'', part3), (''Item 12'', part3), (''Item 13'', part3),
     (''Item 14'', part3),
     (''Item 15'', part4), (''Item 16'', part4)]"

text \<open>
  \<open>determine_section_category\<close>. The regular expression search
  \<open>re.search(r'Item\s+(\d+[A-C]?)', section_name, re.IGNORECASE)\<close> belongs to Python's
  \<open>re\<close> library and is the parameter \<open>item_search\<close>: it returns \<open>group(1)\<close> of the
  match, or \<open>None\<close> where nothing matches.
\<close>

definition determine_section_category :: "(string \<Rightarrow> string option) \<Rightarrow> string \<Rightarrow> string" where
  "determine_section_category item_search section_name =
     (case item_search section_name of
        Some g \<Rightarrow> (case dict_get section_to_category (''Item '' @ g) of
                     Some c \<Rightarrow> c
                   | None \<Rightarrow> part1)
      | None \<Rightarrow> part1)"

type_synonym categories = "(string \<times> (string \<times> json) list) list"

text \<open>
  The loop \<open>for section_name, section_data in sections_data.items()\<close>, with the
  assignment \<open>categories[category][section_name] = section_data\<close>.
\<close>

fun add_sections :: "(string \<Rightarrow> string option) \<Rightarrow> (string \<times> json) list \<Rightarrow> categories
    \<Rightarrow> exn + categories" where
  "add_sections item_search [] cats = Inr cats"
| "add_sections item_search ((section_name, section_data) # rest) cats =
     (let category = determine_section_category item_search section_name in
      case dict_get cats category of
        None \<Rightarrow> Inl (KeyError category)
      | Some secs \<Rightarrow>
          add_sections item_search rest
            (dict_set category (dict_set section_name section_data secs) cats))"

text \<open>
  The list comprehension of \<open>sections_attempted\<close>:
  \<open>s.get('item_number', s.get('title', 'Unknown'))\<close> for every \<open>s\<close>.
\<close>

fun sections_attempted :: "json list \<Rightarrow> exn + json list" where
  "sections_attempted [] = Inr []"
| "sections_attempted (s # rest) =
     bind_err (py_get s ''title'' (JStr ''Unknown'')) (\<lambda>t.
     bind_err (py_get s ''item_number'' t) (\<lambda>a.
     bind_err (sections_attempted rest) (\<lambda>as. Inr (a # as))))"

text \<open>
  The body of the loop \<open>for chunk_result in chunk_results\<close>, on the pair of
  \<open>categories\<close> and \<open>processing_metadata["failed_chunks"]\<close>.
\<close>

definition combine_step :: "(string \<Rightarrow> string option) \<Rightarrow> json \<Rightarrow> categories \<times> json list
    \<Rightarrow> exn + categories \<times> json list" where
  "combine_step item_search chunk_result st =
     (case st of (cats, failed) \<Rightarrow>
      bind_err (py_in ''error'' chunk_result) (\<lambda>has_error.
      if has_error then
        bind_err (py_get chunk_result ''chunk_id'' JNull) (\<lambda>cid.
        bind_err (py_get chunk_result ''error'' JNull) (\<lambda>err.
        bind_err (py_get chunk_result ''sections'' (JArr [])) (\<lambda>secs.
        bind_err (py_iter secs) (\<lambda>ss.
        bind_err (sections_attempted ss) (\<lambda>attempted.
        Inr (cats, failed @ [JObj [(''chunk_id'', cid), (''error'', err),
                                   (''sections_attempted'', JArr attempted)]]))))))
      else
        bind_err (py_get chunk_result ''sections'' (JObj [])) (\<lambda>sections_data.
        bind_err (py_items sections_data) (\<lambda>items.
        bind_err (add_sections item_search items cats) (\<lambda>cats'.
        Inr (cats', failed))))))"

fun combine_loop :: "(string \<Rightarrow> string option) \<Rightarrow> json list \<Rightarrow> categories \<times> json list
    \<Rightarrow> exn + categories \<times> json list" where
  "combine_loop item_search [] st = Inr st"
| "combine_loop item_search (chunk_result # rest) st =
     bind_err (combine_step item_search chunk_result st) (combine_loop item_search rest)"

text \<open>
  \<open>combine_incremental_results\<close>. \<open>now\<close> is what \<open>datetime.now().isoformat()\<close>
  returns when the function runs. \<open>company_name or "COMPANY_NAME"\<close> takes the default for
  \<open>None\<close> and for the empty string.
\<close>

definition str_or :: "string option \<Rightarrow> string \<Rightarrow> string" where
  "str_or s dflt = (case s of None \<Rightarrow> dflt | Some t \<Rightarrow> if t = [] then dflt else t)"

definition initial_categories :: categories where
  "initial_categories = [(part1, []), (part2, []), (part3, []), (part4, [])]"

definition processing_metadata :: "string \<Rightarrow> nat \<Rightarrow> categories \<Rightarrow> json list \<Rightarrow> json" where
  "processing_metadata now n cats failed =
     JObj [(''processing_method'', JStr ''incremental_with_backtracking''),
           (''chunks_processed'', JInt (int n)),
           (''timestamp'', JStr now),
           (''failed_chunks'', JArr failed),
           (''total_sections_extracted'', JInt (int (sum_list (map (\<lambda>(c, secs). length secs) cats)))),
           (''sections_by_category'', JObj (map (\<lambda>(c, secs). (c, JInt (int (length secs)))) cats))]"

definition final_json :: "string \<Rightarrow> string \<Rightarrow> categories \<Rightarrow> json \<Rightarrow> json" where
  "final_json company_key year_key cats metadata =
     JObj [(company_key,
       JObj [(year_key,
         JObj [(''FORM'', JStr ''10-K''),
               (''CATEGORIES'', JObj (map (\<lambda>(c, secs). (c, JObj secs)) cats)),
               (''PROCESSING_METADATA'', metadata)])])]"

definition combine_incremental_results :: "(string \<Rightarrow> string option) \<Rightarrow> string \<Rightarrow> json list
    \<Rightarrow> string option \<Rightarrow> string option \<Rightarrow> exn + json" where
  "combine_incremental_results item_search now chunk_results company_name year =
     bind_err (combine_loop item_search chunk_results (initial_categories, [])) (\<lambda>(cats, failed).
     Inr (final_json (str_or company_name ''COMPANY_NAME'') (str_or year ''YEAR'') cats
            (processing_metadata now (length chunk_results) cats failed)))"

text \<open>Reading the result: \<open>final_json[company][year]\<close> and its entries.\<close>

fun filing_body :: "json \<Rightarrow> (string \<times> json) list" where
  "filing_body (JObj [(company_key, JObj [(year_key, JObj body)])]) = body"
| "filing_body x = []"

definition filing_categories :: "json \<Rightarrow> (string \<times> json) list" where
  "filing_categories fj = the_dict (get_or_none (filing_body fj) ''CATEGORIES'')"

definition filing_metadata :: "json \<Rightarrow> (string \<times> json) list" where
  "filing_metadata fj = the_dict (get_or_none (filing_body fj) ''PROCESSING_METADATA'')"

text \<open>\<open>final_json[company][year]["CATEGORIES"][category].get(name)\<close>.\<close>

definition filing_section :: "json \<Rightarrow> string \<Rightarrow> string \<Rightarrow> json option" where
  "filing_section fj category name =
     dict_get (the_dict (get_or_none (filing_categories fj) category)) name"

subsection \<open>What the combiner computes\<close>

text \<open>
  The four category names, the section lookup \<open>categories[c].get(n)\<close> on the loop's
  state, and, for one chunk result, what the loop takes from it: \<open>section_items\<close> are
  the items of \<open>sections\<close> of a result without the key \<open>error\<close>,
  \<open>failed_records\<close> is the entry appended to \<open>failed_chunks\<close> for a result with
  that key, and \<open>result_accepted\<close> holds when the loop body does not raise on the
  result.
\<close>

definition four_parts :: "string list" where
  "four_parts = [part1, part2, part3, part4]"

definition sec_lookup :: "categories \<Rightarrow> string \<Rightarrow> string \<Rightarrow> json option" where
  "sec_lookup cats c n = (case map_of cats c of None \<Rightarrow> None | Some secs \<Rightarrow> map_of secs n)"

definition section_items :: "json \<Rightarrow> (string \<times> json) list" where
  "section_items r =
     (case r of
        JObj d \<Rightarrow> if dict_has d ''error'' then []
                  else (case dict_get d ''sections'' of Some (JObj items) \<Rightarrow> items | _ \<Rightarrow> [])
      | _ \<Rightarrow> [])"

definition failed_records :: "json \<Rightarrow> json list" where
  "failed_records r =
     (case r of
        JObj d \<Rightarrow>
          if dict_has d ''error'' then
            (case bind_err (py_iter (case dict_get d ''sections'' of None \<Rightarrow> JArr [] | Some v \<Rightarrow> v))
                    sections_attempted of
               Inr attempted \<Rightarrow>
                 [JObj [(''chunk_id'', get_or_none d ''chunk_id''), (''error'', get_or_none d ''error''),
                        (''sections_attempted'', JArr attempted)]]
             | Inl e \<Rightarrow> [])
          else []
      | _ \<Rightarrow> [])"

definition result_accepted :: "json \<Rightarrow> bool" where
  "result_accepted r =
     (case r of
        JObj d \<Rightarrow>
          if dict_has d ''error'' then
            (case bind_err (py_iter (case dict_get d ''sections'' of None \<Rightarrow> JArr [] | Some v \<Rightarrow> v))
                    sections_attempted of
               Inr attempted \<Rightarrow> True | Inl e \<Rightarrow> False)
          else (case dict_get d ''sections'' of None \<Rightarrow> True | Some v \<Rightarrow> is_dict v)
      | _ \<Rightarrow> False)"

definition all_writes :: "json list \<Rightarrow> (string \<times> json) list" where
  "all_writes rs = concat (map section_items rs)"

definition with_timestamp :: "string \<Rightarrow> json \<Rightarrow> json" where
  "with_timestamp t fj =
     (case fj of
        JObj [(company_key, JObj [(year_key, JObj body)])] \<Rightarrow>
          JObj [(company_key, JObj [(year_key,
            JObj (dict_set ''PROCESSING_METADATA''
                    (JObj (dict_set ''timestamp'' (JStr t) (filing_metadata fj))) body))])]
      | _ \<Rightarrow> fj)"

lemma parts_distinct: "distinct four_parts"
  by (simp add: four_parts_def part1_def part2_def part3_def part4_def)

lemma determine_section_category_in_parts:
  "determine_section_category S n \<in> set four_parts"
proof -
  have "c \<in> set four_parts" if "map_of section_to_category k = Some c" for k c
    using that by (simp add: section_to_category_def four_parts_def split: if_splits)
  then show ?thesis
    by (auto simp: determine_section_category_def dict_get_def four_parts_def split: option.splits)
qed

lemma sec_lookup_dict_set:
  "map_of cats c' = Some secs \<Longrightarrow>
   sec_lookup (dict_set c' (dict_set k v secs) cats) c n =
     (if c = c' \<and> n = k then Some v else sec_lookup cats c n)"
  by (auto simp: sec_lookup_def map_of_dict_set)

lemma add_sections_ok:
  "map fst cats = four_parts \<Longrightarrow>
   \<exists>cats'. add_sections S items cats = Inr cats' \<and> map fst cats' = four_parts \<and>
     (\<forall>c n. sec_lookup cats' c n =
        (if c = determine_section_category S n \<and> n \<in> fst ` set items
         then map_of (rev items) n else sec_lookup cats c n))"
proof (induction items arbitrary: cats)
  case Nil
  then show ?case by simp
next
  case (Cons kv rest)
  obtain k v where kv: "kv = (k, v)" by (cases kv)
  let ?cat = "determine_section_category S k"
  have "?cat \<in> fst ` set cats"
    using determine_section_category_in_parts[of S k] Cons.prems
    by (metis list.set_map)
  then obtain secs where secs: "map_of cats ?cat = Some secs"
    by (metis domD dom_map_of_conv_image_fst)
  let ?cats1 = "dict_set ?cat (dict_set k v secs) cats"
  have keys1: "map fst ?cats1 = four_parts"
    using \<open>?cat \<in> fst ` set cats\<close> Cons.prems by (simp add: keys_dict_set)
  from Cons.IH[OF keys1] obtain cats' where
    r: "add_sections S rest ?cats1 = Inr cats'" and k': "map fst cats' = four_parts" and
    l: "\<forall>c n. sec_lookup cats' c n =
        (if c = determine_section_category S n \<and> n \<in> fst ` set rest
         then map_of (rev rest) n else sec_lookup ?cats1 c n)"
    by blast
  have "add_sections S (kv # rest) cats = Inr cats'"
    using r secs by (simp add: kv dict_get_def)
  moreover have "sec_lookup cats' c n =
        (if c = determine_section_category S n \<and> n \<in> fst ` set (kv # rest)
         then map_of (rev (kv # rest)) n else sec_lookup cats c n)" for c n
  proof -
    have m: "n \<in> fst ` set rest \<longleftrightarrow> map_of (rev rest) n \<noteq> None"
      by (simp add: map_of_eq_None_iff)
    show ?thesis
      unfolding l[rule_format] sec_lookup_dict_set[OF secs]
      using m by (auto simp: kv map_add_def split: option.splits)
  qed
  ultimately show ?case using k' by blast
qed

lemma combine_step_accepted:
  assumes "combine_step S r (cats, failed) = Inr st"
  shows "result_accepted r"
proof (cases r)
  case (JObj d)
  show ?thesis
  proof (cases "dict_has d ''error''")
    case True
    then show ?thesis using assms JObj
      by (auto simp: combine_step_def result_accepted_def bind_err_eq_Inr split: sum.splits)
  next
    case False
    then show ?thesis using assms JObj
      by (cases "dict_get d ''sections''"; cases "the (dict_get d ''sections'')")
         (auto simp: combine_step_def result_accepted_def bind_err_eq_Inr)
  qed
qed (use assms in \<open>auto simp: combine_step_def result_accepted_def split: if_splits\<close>)

lemma combine_step_ok:
  assumes "result_accepted r" "map fst cats = four_parts"
  shows "\<exists>cats'. combine_step S r (cats, failed) = Inr (cats', failed @ failed_records r)
      \<and> map fst cats' = four_parts
      \<and> (\<forall>c n. sec_lookup cats' c n =
          (if c = determine_section_category S n \<and> n \<in> fst ` set (section_items r)
           then map_of (rev (section_items r)) n else sec_lookup cats c n))"
proof (cases r)
  case (JObj d)
  show ?thesis
  proof (cases "dict_has d ''error''")
    case True
    then show ?thesis using assms JObj
      by (auto simp: combine_step_def result_accepted_def failed_records_def section_items_def
          get_or_none_def bind_err_eq_Inr split: sum.splits option.splits)
  next
    case False
    obtain items where items: "section_items r = items"
      "bind_err (py_get r ''sections'' (JObj [])) py_items = Inr items"
      using assms(1) JObj False
      by (cases "dict_get d ''sections''"; cases "the (dict_get d ''sections'')")
         (auto simp: result_accepted_def section_items_def)
    from add_sections_ok[OF assms(2), of S items] obtain cats' where
      "add_sections S items cats = Inr cats'" "map fst cats' = four_parts"
      "\<forall>c n. sec_lookup cats' c n =
        (if c = determine_section_category S n \<and> n \<in> fst ` set items
         then map_of (rev items) n else sec_lookup cats c n)"
      by blast
    then show ?thesis using items False JObj
      by (auto simp: combine_step_def failed_records_def bind_err_eq_Inr)
  qed
qed (use assms in \<open>auto simp: result_accepted_def\<close>)

lemma combine_loop_accepted:
  "combine_loop S rs (cats, failed) = Inr st \<Longrightarrow> list_all result_accepted rs"
proof (induction rs arbitrary: cats failed)
  case (Cons r rs)
  then obtain st1 where s1: "combine_step S r (cats, failed) = Inr st1"
    and s2: "combine_loop S rs st1 = Inr st"
    by (auto simp: bind_err_eq_Inr)
  then show ?case using Cons.IH[of "fst st1" "snd st1"] combine_step_accepted[OF s1]
    by simp
qed simp

lemma combine_loop_ok:
  "list_all result_accepted rs \<Longrightarrow> map fst cats = four_parts \<Longrightarrow>
   \<exists>cats'. combine_loop S rs (cats, failed) = Inr (cats', failed @ concat (map failed_records rs))
      \<and> map fst cats' = four_parts
      \<and> (\<forall>c n. sec_lookup cats' c n =
          (if c = determine_section_category S n \<and> n \<in> fst ` set (all_writes rs)
           then map_of (rev (all_writes rs)) n else sec_lookup cats c n))"
proof (induction rs arbitrary: cats failed)
  case Nil
  then show ?case by (simp add: all_writes_def)
next
  case (Cons r rs)
  from combine_step_ok[of r cats S failed] Cons.prems obtain cats1 where
    s1: "combine_step S r (cats, failed) = Inr (cats1, failed @ failed_records r)"
    and k1: "map fst cats1 = four_parts"
    and l1: "\<forall>c n. sec_lookup cats1 c n =
          (if c = determine_section_category S n \<and> n \<in> fst ` set (section_items r)
           then map_of (rev (section_items r)) n else sec_lookup cats c n)"
    by auto
  from Cons.IH[OF _ k1, of "failed @ failed_records r"] Cons.prems obtain cats' where
    s2: "combine_loop S rs (cats1, failed @ failed_records r)
           = Inr (cats', (failed @ failed_records r) @ concat (map failed_records rs))"
    and k2: "map fst cats' = four_parts"
    and l2: "\<forall>c n. sec_lookup cats' c n =
          (if c = determine_section_category S n \<and> n \<in> fst ` set (all_writes rs)
           then map_of (rev (all_writes rs)) n else sec_lookup cats1 c n)"
    by auto
  have "sec_lookup cats' c n =
          (if c = determine_section_category S n \<and> n \<in> fst ` set (all_writes (r # rs))
           then map_of (rev (all_writes (r # rs))) n else sec_lookup cats c n)" for c n
  proof -
    have m: "n \<in> fst ` set (all_writes rs) \<longleftrightarrow> map_of (rev (all_writes rs)) n \<noteq> None"
      by (simp add: map_of_eq_None_iff)
    show ?thesis
      unfolding l2[rule_format] l1[rule_format]
      using m by (auto simp: all_writes_def map_add_def split: option.splits)
  qed
  then show ?case using s1 s2 k2 by simp
qed


lemma filing_of_final_json:
  "filing_categories (final_json ck yk cats md) = map (\<lambda>(c, secs). (c, JObj secs)) cats"
  "filing_metadata (final_json ck yk cats md) = the_dict md"
  by (simp_all add: filing_categories_def filing_metadata_def final_json_def get_or_none_def dict_get_def)

lemma map_of_JObj: "map_of (map (\<lambda>(c, secs). (c, JObj secs)) cats) c = map_option JObj (map_of cats c)"
  by (induction cats) auto

lemma filing_section_final_json:
  "filing_section (final_json ck yk cats md) c n = sec_lookup cats c n"
  by (simp add: filing_section_def filing_of_final_json get_or_none_def dict_get_def
      map_of_JObj sec_lookup_def split: option.splits)

lemma sec_lookup_initial: "sec_lookup initial_categories c n = None"
  by (simp add: sec_lookup_def initial_categories_def)

lemma initial_categories_keys: "map fst initial_categories = four_parts"
  by (simp add: initial_categories_def four_parts_def)

lemma combine_incremental_results_char:
  assumes "combine_incremental_results S now rs company year = Inr fj"
  shows "list_all result_accepted rs"
    and "\<exists>cats. map fst cats = four_parts
          \<and> fj = final_json (str_or company ''COMPANY_NAME'') (str_or year ''YEAR'') cats
                  (processing_metadata now (length rs) cats (concat (map failed_records rs)))
          \<and> (\<forall>c n. sec_lookup cats c n =
               (if c = determine_section_category S n \<and> n \<in> fst ` set (all_writes rs)
                then map_of (rev (all_writes rs)) n else None))"
proof -
  from assms obtain cats failed where
    l: "combine_loop S rs (initial_categories, []) = Inr (cats, failed)"
    and fj: "fj = final_json (str_or company ''COMPANY_NAME'') (str_or year ''YEAR'') cats
                  (processing_metadata now (length rs) cats failed)"
    by (auto simp: combine_incremental_results_def bind_err_eq_Inr)
  show acc: "list_all result_accepted rs"
    using combine_loop_accepted[OF l] .
  from combine_loop_ok[OF acc initial_categories_keys, of S "[]"] l
  have k: "map fst cats = four_parts" and f: "failed = concat (map failed_records rs)"
    and lk: "\<forall>c n. sec_lookup cats c n =
          (if c = determine_section_category S n \<and> n \<in> fst ` set (all_writes rs)
           then map_of (rev (all_writes rs)) n else sec_lookup initial_categories c n)"
    by auto
  show "\<exists>cats. map fst cats = four_parts
          \<and> fj = final_json (str_or company ''COMPANY_NAME'') (str_or year ''YEAR'') cats
                  (processing_metadata now (length rs) cats (concat (map failed_records rs)))
          \<and> (\<forall>c n. sec_lookup cats c n =
               (if c = determine_section_category S n \<and> n \<in> fst ` set (all_writes rs)
                then map_of (rev (all_writes rs)) n else None))"
    using k lk by (intro exI[of _ cats] conjI) (simp_all add: fj f sec_lookup_initial)
qed

lemma combine_incremental_results_returns:
  assumes "list_all result_accepted rs"
  shows "\<exists>fj. combine_incremental_results S now rs company year = Inr fj"
  using combine_loop_ok[OF assms initial_categories_keys, of S "[]"]
  by (auto simp: combine_incremental_results_def)

lemma with_timestamp_final_json:
  "with_timestamp t' (final_json ck yk cats (processing_metadata t n cats failed)) =
     final_json ck yk cats (processing_metadata t' n cats failed)"
  by (simp add: with_timestamp_def final_json_def processing_metadata_def filing_metadata_def
      get_or_none_def dict_get_def)

lemma last_write_concat:
  "map_of (rev (concat (map f rs))) n =
     (let ws = filter (\<lambda>r. n \<in> fst ` set (f r)) rs
      in if ws = [] then None else map_of (rev (f (last ws))) n)"
proof (induction rs rule: rev_induct)
  case Nil
  then show ?case by simp
next
  case (snoc r rs)
  have m: "n \<in> fst ` set (f r) \<longleftrightarrow> map_of (rev (f r)) n \<noteq> None"
    by (simp add: map_of_eq_None_iff)
  show ?case
  proof (cases "n \<in> fst ` set (f r)")
    case True
    then show ?thesis using m
      by (auto simp: map_add_def Let_def split: option.splits)
  next
    case False
    then show ?thesis using snoc m
      by (auto simp: map_add_def Let_def split: option.splits)
  qed
qed

lemma filter_mset_unique:
  assumes "mset ys = mset xs" "length (filter P xs) \<le> 1"
  shows "filter P ys = filter P xs"
proof -
  have e: "mset (filter P ys) = mset (filter P xs)"
    using assms(1) by simp
  then have "length (filter P ys) = length (filter P xs)"
    by (rule mset_eq_length)
  with e assms(2) show ?thesis
    by (cases "filter P xs"; cases "filter P ys") auto
qed

text \<open>
  The results used in the examples: one successful chunk result with two sections and
  one failed chunk record. \<open>demo_item_search\<close> is what the regular expression of
  \<open>determine_section_category\<close> returns on the section names of the examples.
\<close>

definition demo_item_search :: "string \<Rightarrow> string option" where
  "demo_item_search n =
     (if n = ''Item 1A. Risk Factors'' then Some ''1A''
      else if n = ''Item 7. Discussion'' then Some ''7'' else None)"

definition demo_results :: "json list" where
  "demo_results =
     [JObj [(''sections'', JObj [(''Item 7. Discussion'', JStr ''mda''), (''Overview'', JStr ''o'')])],
      JObj [(''chunk_id'', JStr ''FAILED_2''), (''error'', JStr ''boom''),
            (''sections'', JArr [JObj [(''item_number'', JStr ''1A''), (''title'', JStr ''Risk Factors'')]])]]"

text \<open>
  Claim C9. Whenever \<open>combine_incremental_results\<close> returns, the keys under
  \<open>CATEGORIES\<close> are exactly the four fixed names, in this order; every section of every
  chunk result without an \<open>error\<close> key is stored under the category that
  \<open>determine_section_category\<close> gives its name, which is one of the four, and under no
  other category; a name in which the search finds no item number goes to Part I.
\<close>

theorem combine_categories_fixed:
  assumes "combine_incremental_results item_search now chunk_results company_name year = Inr fj"
  shows "map fst (filing_categories fj) =
           [''Part I: Business and Risk Factors'', ''Part II: Financial Information'',
            ''Part III: Governance'', ''Part IV: Exhibits and Schedules'']
       \<and> (\<forall>r \<in> set chunk_results. \<forall>(name, data) \<in> set (section_items r).
            determine_section_category item_search name \<in> set (map fst (filing_categories fj))
            \<and> filing_section fj (determine_section_category item_search name) name \<noteq> None
            \<and> (\<forall>c. c \<noteq> determine_section_category item_search name \<longrightarrow> filing_section fj c name = None)
            \<and> (item_search name = None \<longrightarrow>
                 determine_section_category item_search name = ''Part I: Business and Risk Factors''))"
proof -
  from combine_incremental_results_char(2)[OF assms] obtain cats where
    k: "map fst cats = four_parts" and
    fj: "fj = final_json (str_or company_name ''COMPANY_NAME'') (str_or year ''YEAR'') cats
                  (processing_metadata now (length chunk_results) cats
                     (concat (map failed_records chunk_results)))" and
    l: "\<forall>c n. sec_lookup cats c n =
               (if c = determine_section_category item_search n \<and> n \<in> fst ` set (all_writes chunk_results)
                then map_of (rev (all_writes chunk_results)) n else None)"
    by blast
  have keys: "map fst (filing_categories fj) = four_parts"
    using k by (simp add: fj filing_of_final_json comp_def case_prod_unfold)
  have routed: "determine_section_category item_search name \<in> set (map fst (filing_categories fj))
            \<and> filing_section fj (determine_section_category item_search name) name \<noteq> None
            \<and> (\<forall>c. c \<noteq> determine_section_category item_search name \<longrightarrow> filing_section fj c name = None)
            \<and> (item_search name = None \<longrightarrow>
                 determine_section_category item_search name = ''Part I: Business and Risk Factors'')"
    if "r \<in> set chunk_results" "(name, data) \<in> set (section_items r)" for r name data
  proof -
    have w: "name \<in> fst ` set (all_writes chunk_results)"
      using that by (force simp: all_writes_def)
    then have "map_of (rev (all_writes chunk_results)) name \<noteq> None"
      by (simp add: map_of_eq_None_iff)
    then show ?thesis
      using w l keys determine_section_category_in_parts[of item_search name]
      by (auto simp: fj filing_section_final_json determine_section_category_def part1_def)
  qed
  show ?thesis
    using keys routed by (auto simp: four_parts_def part1_def part2_def part3_def part4_def)
qed

theorem combine_categories_fixed_witness:
  "\<exists>fj. combine_incremental_results demo_item_search ''t0'' demo_results (Some ''ACME'') None = Inr fj
     \<and> map fst (filing_categories fj) =
           [''Part I: Business and Risk Factors'', ''Part II: Financial Information'',
            ''Part III: Governance'', ''Part IV: Exhibits and Schedules'']
     \<and> filing_section fj ''Part II: Financial Information'' ''Item 7. Discussion'' \<noteq> None
     \<and> filing_section fj ''Part I: Business and Risk Factors'' ''Item 7. Discussion'' = None
     \<and> filing_section fj ''Part I: Business and Risk Factors'' ''Overview'' \<noteq> None"
proof -
  define fj where "fj = final_json ''ACME'' ''YEAR''
          [(part1, [(''Overview'', JStr ''o'')]),
           (part2, [(''Item 7. Discussion'', JStr ''mda'')]), (part3, []), (part4, [])]
          (processing_metadata ''t0'' 2
            [(part1, [(''Overview'', JStr ''o'')]),
             (part2, [(''Item 7. Discussion'', JStr ''mda'')]), (part3, []), (part4, [])]
            [JObj [(''chunk_id'', JStr ''FAILED_2''), (''error'', JStr ''boom''),
                   (''sections_attempted'', JArr [JStr ''1A''])]])"
  have e: "combine_incremental_results demo_item_search ''t0'' demo_results (Some ''ACME'') None = Inr fj"
    unfolding fj_def by code_simp
  define r where "r = JObj [(''sections'', JObj [(''Item 7. Discussion'', JStr ''mda''), (''Overview'', JStr ''o'')])]"
  have h: "r \<in> set demo_results"
    by (simp add: demo_results_def r_def)
  have s7: "(''Item 7. Discussion'', JStr ''mda'') \<in> set (section_items r)"
    unfolding r_def by code_simp
  have s0: "(''Overview'', JStr ''o'') \<in> set (section_items r)"
    unfolding r_def by code_simp
  have d7: "determine_section_category demo_item_search ''Item 7. Discussion'' = ''Part II: Financial Information''"
    by code_simp
  have d0: "determine_section_category demo_item_search ''Overview'' = ''Part I: Business and Risk Factors''"
    by code_simp
  have ne: "''Part I: Business and Risk Factors'' \<noteq> ''Part II: Financial Information''"
    by simp
  note c = combine_categories_fixed[OF e]
  note k = c[THEN conjunct1]
  note b7 = bspec[OF bspec[OF c[THEN conjunct2] h] s7, simplified prod.case d7]
  note b0 = bspec[OF bspec[OF c[THEN conjunct2] h] s0, simplified prod.case d0]
  note p7 = b7[THEN conjunct2, THEN conjunct1]
  note q7 = b7[THEN conjunct2, THEN conjunct2, THEN conjunct1, rule_format, OF ne]
  note p0 = b0[THEN conjunct2, THEN conjunct1]
  show ?thesis
    by (rule exI[of _ fj]) (intro conjI e k p7 q7 p0)
qed

text \<open>
  Claim C6, as amended. The result holds the clock reading \<open>timestamp\<close>, so two runs on
  the same results agree up to that entry and not byte for byte: the run at \<open>now'\<close>
  returns the result of the run at \<open>now\<close> with \<open>timestamp\<close> replaced. The section
  stored under a name is the last one written for it, under the category of the name.
  Reordering chunk results that write distinct section names changes no lookup of a
  section.
\<close>

theorem combine_timestamp_last_write:
  assumes "combine_incremental_results item_search now chunk_results company_name year = Inr fj"
  shows "combine_incremental_results item_search now' chunk_results company_name year
           = Inr (with_timestamp now' fj)
       \<and> (\<forall>c name. filing_section fj c name =
            (if c = determine_section_category item_search name
             then map_of (rev (all_writes chunk_results)) name else None))
       \<and> (mset reordered = mset chunk_results
            \<and> (\<forall>name. length (filter (\<lambda>r. name \<in> fst ` set (section_items r)) chunk_results) \<le> 1)
          \<longrightarrow> (\<exists>fj'. combine_incremental_results item_search now reordered company_name year = Inr fj'
                 \<and> (\<forall>c name. filing_section fj' c name = filing_section fj c name)))"
proof -
  note ch = combine_incremental_results_char[OF assms]
  from combine_loop_ok[OF ch(1) initial_categories_keys, of item_search "[]"] obtain cats where
    loop: "combine_loop item_search chunk_results (initial_categories, [])
                = Inr (cats, concat (map failed_records chunk_results))" and
    l: "\<forall>c n. sec_lookup cats c n =
               (if c = determine_section_category item_search n \<and> n \<in> fst ` set (all_writes chunk_results)
                then map_of (rev (all_writes chunk_results)) n else sec_lookup initial_categories c n)"
    by auto
  have fj: "fj = final_json (str_or company_name ''COMPANY_NAME'') (str_or year ''YEAR'') cats
                  (processing_metadata now (length chunk_results) cats
                     (concat (map failed_records chunk_results)))"
    using assms by (simp add: combine_incremental_results_def loop)
  have sec: "filing_section fj c name =
            (if c = determine_section_category item_search name
             then map_of (rev (all_writes chunk_results)) name else None)" for c name
  proof -
    have "name \<notin> fst ` set (all_writes chunk_results)
            \<Longrightarrow> map_of (rev (all_writes chunk_results)) name = None"
      by (simp add: map_of_eq_None_iff)
    then show ?thesis using l by (auto simp: fj filing_section_final_json sec_lookup_initial)
  qed
  have t: "combine_incremental_results item_search now' chunk_results company_name year
           = Inr (with_timestamp now' fj)"
    by (simp add: combine_incremental_results_def loop fj with_timestamp_final_json)
  have perm: "\<exists>fj'. combine_incremental_results item_search now reordered company_name year = Inr fj'
                 \<and> (\<forall>c name. filing_section fj' c name = filing_section fj c name)"
    if p: "mset reordered = mset chunk_results"
      and u: "\<forall>name. length (filter (\<lambda>r. name \<in> fst ` set (section_items r)) chunk_results) \<le> 1"
  proof -
    have "set reordered = set chunk_results"
      using p by (rule mset_eq_setD)
    then have acc: "list_all result_accepted reordered"
      using ch(1) by (simp add: list_all_iff)
    from combine_incremental_results_returns[OF acc] obtain fj' where
      r: "combine_incremental_results item_search now reordered company_name year = Inr fj'"
      by blast
    note ch' = combine_incremental_results_char[OF r]
    from ch'(2) obtain cats' where
      fj': "fj' = final_json (str_or company_name ''COMPANY_NAME'') (str_or year ''YEAR'') cats'
                  (processing_metadata now (length reordered) cats'
                     (concat (map failed_records reordered)))" and
      l': "\<forall>c n. sec_lookup cats' c n =
               (if c = determine_section_category item_search n \<and> n \<in> fst ` set (all_writes reordered)
                then map_of (rev (all_writes reordered)) n else None)"
      by blast
    have same: "map_of (rev (all_writes reordered)) name = map_of (rev (all_writes chunk_results)) name"
      for name
      unfolding all_writes_def last_write_concat
      using filter_mset_unique[OF p u[rule_format, of name]] by simp
    have "filing_section fj' c name = filing_section fj c name" for c name
    proof -
      have "name \<notin> fst ` set (all_writes reordered)
            \<Longrightarrow> map_of (rev (all_writes reordered)) name = None"
        by (simp add: map_of_eq_None_iff)
      then show ?thesis
        using l' same[of name] by (auto simp: sec fj' filing_section_final_json)
    qed
    with r show ?thesis by blast
  qed
  show ?thesis using t sec perm by blast
qed

theorem combine_timestamp_last_write_witness:
  "\<exists>fj. combine_incremental_results demo_item_search ''t0'' demo_results (Some ''ACME'') None = Inr fj
     \<and> combine_incremental_results demo_item_search ''t1'' demo_results (Some ''ACME'') None
           = Inr (with_timestamp ''t1'' fj)
     \<and> filing_section fj ''Part I: Business and Risk Factors'' ''Overview'' = Some (JStr ''o'')
     \<and> (\<exists>fj'. combine_incremental_results demo_item_search ''t0'' (rev demo_results) (Some ''ACME'') None = Inr fj'
            \<and> (\<forall>c name. filing_section fj' c name = filing_section fj c name))"
proof -
  define fj where "fj = final_json ''ACME'' ''YEAR''
          [(part1, [(''Overview'', JStr ''o'')]),
           (part2, [(''Item 7. Discussion'', JStr ''mda'')]), (part3, []), (part4, [])]
          (processing_metadata ''t0'' 2
            [(part1, [(''Overview'', JStr ''o'')]),
             (part2, [(''Item 7. Discussion'', JStr ''mda'')]), (part3, []), (part4, [])]
            [JObj [(''chunk_id'', JStr ''FAILED_2''), (''error'', JStr ''boom''),
                   (''sections_attempted'', JArr [JStr ''1A''])]])"
  have e: "combine_incremental_results demo_item_search ''t0'' demo_results (Some ''ACME'') None = Inr fj"
    unfolding fj_def by code_simp
  have p: "mset (rev demo_results) = mset demo_results"
    by simp
  have u: "\<forall>name. length (filter (\<lambda>r. name \<in> fst ` set (section_items r)) demo_results) \<le> 1"
    by (simp add: demo_results_def section_items_def dict_has_def dict_get_def)
  have d0: "determine_section_category demo_item_search ''Overview'' = ''Part I: Business and Risk Factors''"
    by code_simp
  have w: "map_of (rev (all_writes demo_results)) ''Overview'' = Some (JStr ''o'')"
    by code_simp
  note t = combine_timestamp_last_write[OF e, of "''t1''" "rev demo_results"]
  note t1 = t[THEN conjunct1]
  have t2: "filing_section fj ''Part I: Business and Risk Factors'' ''Overview'' = Some (JStr ''o'')"
    using t[THEN conjunct2, THEN conjunct1, rule_format, of "''Part I: Business and Risk Factors''" "''Overview''"]
    unfolding d0 w by simp
  note t3 = t[THEN conjunct2, THEN conjunct2, rule_format, OF conjI[OF p u]]
  show ?thesis
    by (rule exI[of _ fj]) (intro conjI e t1 t2 t3)
qed

theorem combine_twice_counterexample:
  "combine_incremental_results demo_item_search ''2025-03-01T10:00:00.000001'' demo_results (Some ''ACME'') None
     \<noteq> combine_incremental_results demo_item_search ''2025-03-01T10:00:07.500000'' demo_results (Some ''ACME'') None"
  by code_simp

section \<open>Boundaries, sections and chunks (proto-3/10-k\_modified.py)\<close>

text \<open>
  The dictionaries of the processor have fixed keys and are records. A boundary (built by
  \<open>detect_section_boundaries\<close>) and a section (built by \<open>create_processing_chunks\<close>)
  share the keys of \<open>header\<close>. The positions of a boundary are offsets of a match and
  natural numbers; those of a section are Python integers, since \<open>reduce_chunk_size\<close>
  computes a section's \<open>end_position\<close> and can make it negative. A planned chunk is what \<open>create_processing_chunks\<close>
  returns; \<open>extract_sections_dynamic\<close> adds \<open>chunk_id\<close> and \<open>content\<close> to it.

  Python floats: a float is modelled by the rational it stands for, and every float
  operation rounds its exact result with \<open>rnd\<close>, the rounding of the machine's
  arithmetic. So \<open>n * 0.8\<close> for an integer \<open>n\<close>
  is \<open>rnd (rnd (of_int n) * rnd (8 / 10))\<close>. Comparisons of an integer with a float are
  exact in Python and in the model. The planner takes \<open>rnd\<close> as an argument;
  \<open>round_double\<close> below is the rounding of CPython's floats.
\<close>

record 'p header =
  item_number :: "string option"
  title :: string
  position :: 'p
  end_position :: 'p
  confidence :: rat

record boundary = "nat header" +
  strategy :: string
  full_match :: string
  context_before :: string
  context_after :: string

record section_dict = "int header" +
  estimated_tokens :: nat

record plan_chunk =
  start_pos :: nat
  end_pos :: nat
  sections :: "section_dict list"
  estimated_input_tokens :: nat
  estimated_output_tokens :: rat

datatype chunk_id = IntId nat | StrId string

record chunk = plan_chunk +
  chunk_id :: chunk_id
  content :: string

type_synonym rounding = "rat \<Rightarrow> rat"

definition int_times_float :: "rounding \<Rightarrow> int \<Rightarrow> rat \<Rightarrow> rat" where
  "int_times_float rnd n c = rnd (rnd (of_int n) * rnd c)"

definition float_plus :: "rounding \<Rightarrow> rat \<Rightarrow> rat \<Rightarrow> rat" where
  "float_plus rnd a b = rnd (a + b)"

text \<open>
  \<open>round_double\<close>: rounding to the nearest IEEE 754 double, ties to even, which is what
  CPython's \<open>float\<close> does on converting an integer or a literal and on every
  multiplication and addition. A double is \<open>m * 2 ^ e\<close> for an integer \<open>m\<close> of at
  most 53 bits and \<open>e \<ge> - 1074\<close>. \<open>ilog2 x\<close> is the \<open>e\<close> with
  \<open>2 ^ e \<le> x < 2 ^ (e + 1)\<close> (lemma \<open>ilog2_bounds\<close>). The exponent has no upper
  bound here: beyond the largest double Python raises \<open>OverflowError\<close> on converting
  an integer, and no plan is made.
\<close>

definition ilog2 :: "rat \<Rightarrow> int" where
  "ilog2 x = (case quotient_of x of (p, q) \<Rightarrow>
     (let e = bitlen p - bitlen q in if 2 powi e \<le> x then e else e - 1))"

definition round_half_even :: "rat \<Rightarrow> int" where
  "round_half_even y =
     (let f = \<lfloor>y\<rfloor>; d = y - of_int f in
      if d < 1 / 2 then f else if d > 1 / 2 then f + 1 else if even f then f else f + 1)"

definition round_double :: rounding where
  "round_double x =
     (if x = 0 then 0
      else (let u = 2 powi (max (ilog2 \<bar>x\<bar> - 52) (- 1074))
            in of_int (round_half_even (x / u)) * u))"

text \<open>\<open>text[a:b]\<close> for indices \<open>0 \<le> a\<close> and \<open>0 \<le> b\<close>, and \<open>estimate_token_count\<close>.\<close>

definition slice :: "'a list \<Rightarrow> nat \<Rightarrow> nat \<Rightarrow> 'a list" where
  "slice xs a b = drop a (take b xs)"

definition estimate_token_count :: "string \<Rightarrow> nat" where
  "estimate_token_count text = length text div 4"

section \<open>Chunk planner\<close>

text \<open>
  The tests of the loop of \<open>create_processing_chunks\<close>:
  \<open>section_tokens > available_tokens * 0.8\<close>, and \<open>would_exceed_input or
  would_exceed_output\<close> on the current chunk.
\<close>

definition is_large :: "rounding \<Rightarrow> int \<Rightarrow> nat \<Rightarrow> bool" where
  "is_large rnd available_tokens section_tokens =
     (of_nat section_tokens > int_times_float rnd available_tokens (8 / 10))"

definition estimated_output_of :: "rounding \<Rightarrow> nat \<Rightarrow> rat" where
  "estimated_output_of rnd section_tokens = int_times_float rnd (int section_tokens) (1 / 10)"

definition would_exceed :: "rounding \<Rightarrow> int \<Rightarrow> int \<Rightarrow> plan_chunk \<Rightarrow> nat \<Rightarrow> bool" where
  "would_exceed rnd available_tokens max_output_tokens current_chunk section_tokens =
     (int (estimated_input_tokens current_chunk) + int section_tokens > available_tokens
      \<or> float_plus rnd (estimated_output_tokens current_chunk)
            (estimated_output_of rnd section_tokens) > of_int max_output_tokens)"

definition new_chunk :: "nat \<Rightarrow> plan_chunk" where
  "new_chunk start =
     \<lparr>start_pos = start, end_pos = 0, sections = [],
      estimated_input_tokens = 0, estimated_output_tokens = 0\<rparr>"

definition section_of :: "boundary \<Rightarrow> string \<Rightarrow> nat \<Rightarrow> nat \<Rightarrow> section_dict" where
  "section_of b ttl next_boundary_pos section_tokens =
     \<lparr>item_number = item_number b, title = ttl, position = int (position b),
      end_position = int next_boundary_pos, confidence = confidence b,
      estimated_tokens = section_tokens\<rparr>"

text \<open>\<open>if current_chunk['sections']: current_chunk['end_pos'] = ...; chunks.append(current_chunk)\<close>.\<close>

definition finalize :: "plan_chunk list \<Rightarrow> plan_chunk \<Rightarrow> nat \<Rightarrow> plan_chunk list" where
  "finalize chunks current_chunk e =
     (if sections current_chunk \<noteq> [] then chunks @ [current_chunk\<lparr>end_pos := e\<rparr>] else chunks)"

text \<open>
  The loop \<open>for i, boundary in enumerate(boundaries)\<close>, on the pair of \<open>chunks\<close> and
  \<open>current_chunk\<close>. \<open>boundaries[i + 1]\<close> is the head of the boundaries still to come.
\<close>

fun plan_loop :: "rounding \<Rightarrow> string \<Rightarrow> int \<Rightarrow> int \<Rightarrow> boundary list
    \<Rightarrow> plan_chunk list \<Rightarrow> plan_chunk \<Rightarrow> plan_chunk list \<times> plan_chunk" where
  "plan_loop rnd document_content available_tokens max_output_tokens [] chunks current_chunk =
     (chunks, current_chunk)"
| "plan_loop rnd document_content available_tokens max_output_tokens (b # rest) chunks current_chunk =
     (let next_boundary_pos = (case rest of [] \<Rightarrow> length document_content | b' # _ \<Rightarrow> position b');
          section_content = slice document_content (position b) next_boundary_pos;
          section_tokens = estimate_token_count section_content;
          estimated_output = estimated_output_of rnd section_tokens
      in
      if is_large rnd available_tokens section_tokens then
        plan_loop rnd document_content available_tokens max_output_tokens rest
          (finalize chunks current_chunk (position b) @
            [\<lparr>start_pos = position b, end_pos = next_boundary_pos,
              sections = [section_of b (title b @ '' [LARGE SECTION]'') next_boundary_pos section_tokens],
              estimated_input_tokens = section_tokens,
              estimated_output_tokens = estimated_output\<rparr>])
          (new_chunk next_boundary_pos)
      else
        (let flush = would_exceed rnd available_tokens max_output_tokens current_chunk section_tokens;
             chunks1 = (if flush then finalize chunks current_chunk (position b) else chunks);
             current1 = (if flush then new_chunk (position b) else current_chunk)
         in
         plan_loop rnd document_content available_tokens max_output_tokens rest chunks1
           (current1\<lparr>sections := sections current1 @ [section_of b (title b) next_boundary_pos section_tokens],
                     estimated_input_tokens := estimated_input_tokens current1 + section_tokens,
                     estimated_output_tokens :=
                       float_plus rnd (estimated_output_tokens current1) estimated_output\<rparr>)))"

text \<open>
  \<open>create_processing_chunks\<close>. \<open>system_prompt\<close> is \<open>self.system_prompt\<close>, which
  \<open>__init__\<close> always sets.
\<close>

definition available_tokens_of :: "string \<Rightarrow> int \<Rightarrow> int" where
  "available_tokens_of system_prompt max_input_tokens =
     max_input_tokens - int (estimate_token_count system_prompt) - 1000"

definition create_processing_chunks :: "rounding \<Rightarrow> string \<Rightarrow> string \<Rightarrow> boundary list
    \<Rightarrow> int \<Rightarrow> int \<Rightarrow> plan_chunk list" where
  "create_processing_chunks rnd system_prompt document_content boundaries max_input_tokens max_output_tokens =
     (case plan_loop rnd document_content (available_tokens_of system_prompt max_input_tokens)
             max_output_tokens boundaries [] (new_chunk 0) of
        (chunks, current_chunk) \<Rightarrow> finalize chunks current_chunk (length document_content))"

text \<open>
  Step 3 of \<open>extract_sections_dynamic\<close>: the loop over \<open>enumerate(chunks)\<close> that cuts
  each chunk's \<open>content\<close> out of the document and numbers the chunks from 1.
\<close>

fun processing_chunks_from :: "nat \<Rightarrow> string \<Rightarrow> plan_chunk list \<Rightarrow> chunk list" where
  "processing_chunks_from i document_content [] = []"
| "processing_chunks_from i document_content (c # cs) =
     \<lparr>start_pos = start_pos c, end_pos = end_pos c, sections = sections c,
      estimated_input_tokens = estimated_input_tokens c,
      estimated_output_tokens = estimated_output_tokens c,
      chunk_id = IntId (i + 1),
      content = slice document_content (start_pos c) (end_pos c)\<rparr>
     # processing_chunks_from (Suc i) document_content cs"

subsection \<open>Planned chunks tile the document\<close>

text \<open>
  \<open>content_of\<close> is the content \<open>extract_sections_dynamic\<close> cuts for a planned chunk,
  and \<open>next_pos\<close> the position of the next boundary, or the length of the document after
  the last one. \<open>tiling\<close> is the invariant of the planner's loop: the chunks finished so
  far cover the document, without gap or overlap, from the start of the first chunk to
  the start of the current one. Offsets are clipped to the length of the document, as
  Python's slices clip them.
\<close>

definition content_of :: "string \<Rightarrow> plan_chunk \<Rightarrow> string" where
  "content_of doc c = slice doc (start_pos c) (end_pos c)"

definition next_pos :: "string \<Rightarrow> boundary list \<Rightarrow> nat" where
  "next_pos doc bs = (case bs of [] \<Rightarrow> length doc | b # _ \<Rightarrow> position b)"

lemma content_processing_chunks_from:
  "map content (processing_chunks_from i doc cs) = map (content_of doc) cs"
  by (induction cs arbitrary: i) (auto simp: content_of_def)

lemma slice_append: "a \<le> b \<Longrightarrow> b \<le> c \<Longrightarrow> slice xs a b @ slice xs b c = slice xs a c"
proof -
  assume ab: "a \<le> b" and bc: "b \<le> c"
  have "take c xs = take b xs @ drop b (take c xs)"
    using bc by (metis append_take_drop_id min.absorb1 take_take)
  then have "drop a (take c xs) = drop a (take b xs) @ drop (a - length (take b xs)) (drop b (take c xs))"
    by (metis drop_append)
  moreover have "drop (a - length (take b xs)) (drop b (take c xs)) = drop b (take c xs)"
  proof (cases "a \<le> length (take b xs)")
    case True
    then show ?thesis by simp
  next
    case False
    then have "length xs < b" using ab by simp
    then show ?thesis by simp
  qed
  ultimately show ?thesis by (simp add: slice_def)
qed

lemma slice_to_end: "a \<le> b \<Longrightarrow> slice xs a b @ slice xs b (length xs) = drop a xs"
proof (cases "b \<le> length xs")
  case True
  assume "a \<le> b"
  then show ?thesis using slice_append[of a b "length xs" xs] True by (simp add: slice_def)
next
  case False
  assume "a \<le> b"
  then show ?thesis using False by (simp add: slice_def)
qed

definition clip :: "string \<Rightarrow> nat \<Rightarrow> nat" where
  "clip doc x = min x (length doc)"

lemma slice_clip: "slice doc a b = slice doc (clip doc a) (clip doc b)"
  by (simp add: slice_def clip_def min_def)

lemma clip_mono: "a \<le> b \<Longrightarrow> clip doc a \<le> clip doc b"
  by (simp add: clip_def min_def)

lemma clip_length [simp]: "clip doc (length doc) = length doc" "clip doc x \<le> length doc"
  by (simp_all add: clip_def)

lemma clip_next_pos: "sorted (map position (b # rest)) \<Longrightarrow> clip doc (position b) \<le> clip doc (next_pos doc rest)"
  by (cases rest) (auto simp: next_pos_def intro: clip_mono)

definition first_start :: "plan_chunk list \<Rightarrow> plan_chunk \<Rightarrow> nat" where
  "first_start chunks cur = start_pos (hd (chunks @ [cur]))"

definition tiling :: "string \<Rightarrow> boundary list \<Rightarrow> plan_chunk list \<Rightarrow> plan_chunk \<Rightarrow> bool" where
  "tiling doc bs chunks cur \<longleftrightarrow>
     concat (map (content_of doc) chunks)
       = slice doc (clip doc (first_start chunks cur)) (clip doc (start_pos cur))
     \<and> clip doc (first_start chunks cur) \<le> clip doc (start_pos cur)
     \<and> clip doc (start_pos cur) \<le> clip doc (next_pos doc bs)
     \<and> (sections cur = [] \<and> chunks \<noteq> [] \<longrightarrow> clip doc (start_pos cur) = clip doc (next_pos doc bs))"

lemma tiling_step:
  assumes "tiling doc (b # rest) chunks cur" "clip doc (position b) \<le> clip doc (next_pos doc rest)"
  shows "tiling doc rest
           (finalize chunks cur (position b) @
             [\<lparr>start_pos = position b, end_pos = next_pos doc rest, sections = ss,
               estimated_input_tokens = n, estimated_output_tokens = e\<rparr>])
           (new_chunk (next_pos doc rest))" (is ?large)
    and "tiling doc rest (finalize chunks cur (position b))
           ((new_chunk (position b))\<lparr>sections := [s], estimated_input_tokens := n,
               estimated_output_tokens := e\<rparr>)" (is ?flush)
    and "tiling doc rest chunks
           (cur\<lparr>sections := sections cur @ [s], estimated_input_tokens := n,
               estimated_output_tokens := e\<rparr>)" (is ?acc)
proof -
  let ?p = "position b"
  from assms(1) have
    c: "concat (map (content_of doc) chunks)
          = slice doc (clip doc (first_start chunks cur)) (clip doc (start_pos cur))"
    and f: "clip doc (first_start chunks cur) \<le> clip doc (start_pos cur)"
    and le: "clip doc (start_pos cur) \<le> clip doc ?p"
    and a: "sections cur = [] \<and> chunks \<noteq> [] \<longrightarrow> clip doc (start_pos cur) = clip doc ?p"
    by (simp_all add: tiling_def next_pos_def)
  define F where "F = first_start (finalize chunks cur ?p) (new_chunk ?p)"
  have fin: "concat (map (content_of doc) (finalize chunks cur ?p))
               = slice doc (clip doc F) (clip doc ?p) \<and> clip doc F \<le> clip doc ?p"
  proof (cases "sections cur = []")
    case True
    show ?thesis
    proof (cases "chunks = []")
      case True
      then show ?thesis using \<open>sections cur = []\<close>
        by (simp add: F_def finalize_def first_start_def new_chunk_def slice_def)
    next
      case False
      then have "clip doc (start_pos cur) = clip doc ?p" using a True by simp
      then show ?thesis using True False c f
        by (simp add: F_def finalize_def first_start_def)
    qed
  next
    case False
    have "F = first_start chunks cur"
      using False by (cases chunks) (simp_all add: F_def finalize_def first_start_def)
    moreover have "content_of doc (cur\<lparr>end_pos := ?p\<rparr>) = slice doc (clip doc (start_pos cur)) (clip doc ?p)"
      using slice_clip[of doc "start_pos cur" ?p] by (simp add: content_of_def)
    ultimately show ?thesis using False c f le slice_append[OF f le, of doc]
      by (simp add: finalize_def)
  qed
  have F1: "first_start (finalize chunks cur ?p @ [L]) X = F" if "start_pos L = ?p" for L X
    using that by (cases "finalize chunks cur ?p") (simp_all add: F_def first_start_def new_chunk_def)
  have F2: "first_start (finalize chunks cur ?p) L = F" if "start_pos L = ?p" for L
    using that by (cases "finalize chunks cur ?p") (simp_all add: F_def first_start_def new_chunk_def)
  from fin have fc: "concat (map (content_of doc) (finalize chunks cur ?p)) = slice doc (clip doc F) (clip doc ?p)"
    and fl: "clip doc F \<le> clip doc ?p" by simp_all
  have lc: "content_of doc \<lparr>start_pos = ?p, end_pos = next_pos doc rest, sections = ss,
               estimated_input_tokens = n, estimated_output_tokens = e\<rparr>
             = slice doc (clip doc ?p) (clip doc (next_pos doc rest))"
    using slice_clip[of doc ?p "next_pos doc rest"] by (simp add: content_of_def)
  show ?large
    unfolding tiling_def
    using slice_append[OF fl assms(2), of doc] fl assms(2)
    by (simp add: F1 fc lc new_chunk_def)
  show ?flush
    unfolding tiling_def
    using fl assms(2) by (simp add: F2 fc new_chunk_def slice_def)
  show ?acc
    using c f le assms(2) by (cases chunks) (simp_all add: tiling_def first_start_def)
qed

lemma plan_loop_tiling:
  assumes "sorted (map position bs)" "tiling doc bs chunks cur"
    "plan_loop rnd doc avail maxout bs chunks cur = (chunks', cur')"
  shows "tiling doc [] chunks' cur'"
  using assms
proof (induction bs arbitrary: chunks cur)
  case Nil
  then show ?case by simp
next
  case (Cons b rest)
  have s: "sorted (map position rest)" using Cons.prems(1) by simp
  note st = tiling_step[OF Cons.prems(2) clip_next_pos[OF Cons.prems(1)]]
  have np: "(case rest of [] \<Rightarrow> length doc | b' # x \<Rightarrow> position b') = next_pos doc rest"
    by (simp add: next_pos_def)
  show ?case
  proof (cases "is_large rnd avail (estimate_token_count (slice doc (position b) (next_pos doc rest)))")
    case True
    then show ?thesis
      using Cons.prems(3) Cons.IH[OF s st(1)]
      by (simp add: Let_def np)
  next
    case False
    show ?thesis
    proof (cases "would_exceed rnd avail maxout cur (estimate_token_count (slice doc (position b) (next_pos doc rest)))")
      case True
      then show ?thesis
        using Cons.prems(3) False Cons.IH[OF s st(2)]
        by (simp add: Let_def np new_chunk_def)
    next
      case w: False
      then show ?thesis
        using Cons.prems(3) False Cons.IH[OF s st(3)]
        by (simp add: Let_def np)
    qed
  qed
qed


lemma plan_loop_first_start:
  assumes "chunks \<noteq> [] \<or> sections cur \<noteq> []"
    "plan_loop rnd doc avail maxout bs chunks cur = (chunks', cur')"
  shows "(chunks' \<noteq> [] \<or> sections cur' \<noteq> []) \<and> first_start chunks' cur' = first_start chunks cur"
  using assms
proof (induction bs arbitrary: chunks cur)
  case Nil
  then show ?case by simp
next
  case (Cons b rest)
  define nxt where "nxt = (case rest of [] \<Rightarrow> length doc | b' # x \<Rightarrow> position b')"
  define n where "n = estimate_token_count (slice doc (position b) nxt)"
  define fin where "fin = finalize chunks cur (position b)"
  have fin_first: "first_start fin X = first_start chunks cur" for X
    using Cons.prems(1) by (cases chunks) (auto simp: fin_def finalize_def first_start_def)
  have fin_app: "first_start (fin @ [L]) X = first_start chunks cur" for X L
    using Cons.prems(1) by (cases chunks) (auto simp: fin_def finalize_def first_start_def)
  show ?case
  proof (cases "is_large rnd avail n")
    case True
    define L where "L = \<lparr>start_pos = position b, end_pos = nxt,
              sections = [section_of b (title b @ '' [LARGE SECTION]'') nxt n],
              estimated_input_tokens = n,
              estimated_output_tokens = estimated_output_of rnd n\<rparr>"
    have "plan_loop rnd doc avail maxout rest (fin @ [L]) (new_chunk nxt) = (chunks', cur')"
      using Cons.prems(2) True by (simp add: Let_def nxt_def n_def fin_def L_def)
    from Cons.IH[OF _ this] show ?thesis
      by (simp add: fin_app)
  next
    case False
    show ?thesis
    proof (cases "would_exceed rnd avail maxout cur n")
      case True
      define c2 where "c2 = (new_chunk (position b))\<lparr>sections := sections (new_chunk (position b)) @ [section_of b (title b) nxt n],
                     estimated_input_tokens := estimated_input_tokens (new_chunk (position b)) + n,
                     estimated_output_tokens :=
                       float_plus rnd (estimated_output_tokens (new_chunk (position b))) (estimated_output_of rnd n)\<rparr>"
      have "plan_loop rnd doc avail maxout rest fin c2 = (chunks', cur')"
        using Cons.prems(2) True False by (simp add: Let_def nxt_def n_def fin_def c2_def)
      moreover have "sections c2 \<noteq> []" by (simp add: c2_def)
      ultimately have "(chunks' \<noteq> [] \<or> sections cur' \<noteq> []) \<and> first_start chunks' cur' = first_start fin c2"
        using Cons.IH[of fin c2] by simp
      then show ?thesis by (simp add: fin_first)
    next
      case w: False
      define c2 where "c2 = cur\<lparr>sections := sections cur @ [section_of b (title b) nxt n],
                     estimated_input_tokens := estimated_input_tokens cur + n,
                     estimated_output_tokens :=
                       float_plus rnd (estimated_output_tokens cur) (estimated_output_of rnd n)\<rparr>"
      have "plan_loop rnd doc avail maxout rest chunks c2 = (chunks', cur')"
        using Cons.prems(2) w False by (simp add: Let_def nxt_def n_def c2_def)
      moreover have "sections c2 \<noteq> []" by (simp add: c2_def)
      moreover have "first_start chunks c2 = first_start chunks cur"
        by (cases chunks) (simp_all add: first_start_def c2_def)
      ultimately show ?thesis
        using Cons.IH[of chunks c2] by simp
    qed
  qed
qed


lemma tiling_initial: "tiling doc bs [] (new_chunk 0)"
  by (simp add: tiling_def first_start_def new_chunk_def slice_def clip_def)

lemma finalize_tiles:
  assumes "tiling doc [] chunks cur" "chunks \<noteq> [] \<or> sections cur \<noteq> []"
  shows "finalize chunks cur (length doc) \<noteq> []"
    and "start_pos (hd (finalize chunks cur (length doc))) = first_start chunks cur"
    and "concat (map (content_of doc) (finalize chunks cur (length doc))) = drop (first_start chunks cur) doc"
proof -
  let ?F = "first_start chunks cur"
  from assms(1) have
    c: "concat (map (content_of doc) chunks) = slice doc (clip doc ?F) (clip doc (start_pos cur))"
    and f: "clip doc ?F \<le> clip doc (start_pos cur)"
    and a: "sections cur = [] \<and> chunks \<noteq> [] \<longrightarrow> clip doc (start_pos cur) = length doc"
    by (simp_all add: tiling_def next_pos_def)
  have d: "slice doc (clip doc ?F) (length doc) = drop ?F doc"
    by (simp add: slice_def clip_def min_def)
  show "finalize chunks cur (length doc) \<noteq> []"
    using assms(2) by (auto simp: finalize_def)
  show "start_pos (hd (finalize chunks cur (length doc))) = ?F"
    using assms(2) by (cases chunks) (auto simp: finalize_def first_start_def)
  show "concat (map (content_of doc) (finalize chunks cur (length doc))) = drop ?F doc"
  proof (cases "sections cur = []")
    case True
    then show ?thesis using assms(2) a c d by (simp add: finalize_def)
  next
    case False
    have "content_of doc (cur\<lparr>end_pos := length doc\<rparr>) = slice doc (clip doc (start_pos cur)) (length doc)"
      using slice_clip[of doc "start_pos cur" "length doc"] by (simp add: content_of_def)
    then show ?thesis
      using False c d slice_append[OF f, of "length doc" doc]
      by (simp add: finalize_def)
  qed
qed

definition first_section_tokens :: "string \<Rightarrow> boundary list \<Rightarrow> nat" where
  "first_section_tokens doc bs =
     estimate_token_count (slice doc (position (hd bs)) (next_pos doc (tl bs)))"

lemma create_processing_chunks_tiles:
  fixes rnd :: rounding and sp doc :: string and max_in max_out :: int and bs :: "boundary list"
  assumes "sorted (map position bs)" "bs \<noteq> []"
  defines "chunks \<equiv> create_processing_chunks rnd sp doc bs max_in max_out"
  shows "chunks \<noteq> []"
    and "concat (map (content_of doc) chunks) = drop (start_pos (hd chunks)) doc"
    and "start_pos (hd chunks) =
          (if is_large rnd (available_tokens_of sp max_in) (first_section_tokens doc bs)
              \<or> would_exceed rnd (available_tokens_of sp max_in) max_out (new_chunk 0)
                   (first_section_tokens doc bs)
           then position (hd bs) else 0)"
proof -
  let ?avail = "available_tokens_of sp max_in"
  obtain cs cur where pl: "plan_loop rnd doc ?avail max_out bs [] (new_chunk 0) = (cs, cur)"
    by (cases "plan_loop rnd doc ?avail max_out bs [] (new_chunk 0)")
  then have ch: "chunks = finalize cs cur (length doc)"
    by (simp add: chunks_def create_processing_chunks_def)
  have t: "tiling doc [] cs cur"
    using plan_loop_tiling[OF assms(1) tiling_initial pl] .
  obtain b rest where bs: "bs = b # rest" using assms(2) by (cases bs) auto
  define n where "n = first_section_tokens doc bs"
  have n: "n = estimate_token_count (slice doc (position b) (case rest of [] \<Rightarrow> length doc | b' # x \<Rightarrow> position b'))"
    by (simp add: n_def first_section_tokens_def bs next_pos_def)
  let ?flushed = "is_large rnd ?avail n \<or> would_exceed rnd ?avail max_out (new_chunk 0) n"
  define nxt where "nxt = (case rest of [] \<Rightarrow> length doc | b' # x \<Rightarrow> position b')"
  have n': "n = estimate_token_count (slice doc (position b) nxt)"
    by (simp add: n nxt_def)
  have "\<exists>cs1 c1. plan_loop rnd doc ?avail max_out rest cs1 c1 = (cs, cur)
          \<and> (cs1 \<noteq> [] \<or> sections c1 \<noteq> [])
          \<and> first_start cs1 c1 = (if ?flushed then position b else 0)"
  proof (cases "is_large rnd ?avail n")
    case True
    define L where "L = \<lparr>start_pos = position b, end_pos = nxt,
              sections = [section_of b (title b @ '' [LARGE SECTION]'') nxt n],
              estimated_input_tokens = n,
              estimated_output_tokens = estimated_output_of rnd n\<rparr>"
    have "plan_loop rnd doc ?avail max_out rest [L] (new_chunk nxt) = (cs, cur)"
      using pl True unfolding bs by (simp add: Let_def nxt_def[symmetric] n'[symmetric] L_def finalize_def new_chunk_def)
    moreover have "first_start [L] (new_chunk nxt) = position b"
      by (simp add: first_start_def L_def)
    ultimately show ?thesis using True by (intro exI[of _ "[L]"] exI[of _ "new_chunk nxt"]) simp
  next
    case False
    show ?thesis
    proof (cases "would_exceed rnd ?avail max_out (new_chunk 0) n")
      case True
      define c2 where "c2 = (new_chunk (position b))\<lparr>sections := sections (new_chunk (position b)) @ [section_of b (title b) nxt n],
                     estimated_input_tokens := estimated_input_tokens (new_chunk (position b)) + n,
                     estimated_output_tokens :=
                       float_plus rnd (estimated_output_tokens (new_chunk (position b))) (estimated_output_of rnd n)\<rparr>"
      have "plan_loop rnd doc ?avail max_out rest [] c2 = (cs, cur)"
        using pl True False unfolding bs
        by (simp add: Let_def nxt_def[symmetric] n'[symmetric] c2_def finalize_def[of _ "new_chunk 0"])
           (simp add: new_chunk_def)
      moreover have "first_start [] c2 = position b" "sections c2 \<noteq> []"
        by (simp_all add: first_start_def c2_def new_chunk_def)
      ultimately show ?thesis using True by (intro exI[of _ "[]"] exI[of _ c2]) simp
    next
      case w: False
      define c2 where "c2 = (new_chunk 0)\<lparr>sections := sections (new_chunk 0) @ [section_of b (title b) nxt n],
                     estimated_input_tokens := estimated_input_tokens (new_chunk 0) + n,
                     estimated_output_tokens :=
                       float_plus rnd (estimated_output_tokens (new_chunk 0)) (estimated_output_of rnd n)\<rparr>"
      have "plan_loop rnd doc ?avail max_out rest [] c2 = (cs, cur)"
        using pl w False unfolding bs
        by (simp add: Let_def nxt_def[symmetric] n'[symmetric] c2_def)
      moreover have "first_start [] c2 = 0" "sections c2 \<noteq> []"
        by (simp_all add: first_start_def c2_def new_chunk_def)
      ultimately show ?thesis using w False by (intro exI[of _ "[]"] exI[of _ c2]) simp
    qed
  qed
  then obtain cs1 c1 where
    "plan_loop rnd doc ?avail max_out rest cs1 c1 = (cs, cur)"
    "cs1 \<noteq> [] \<or> sections c1 \<noteq> []"
    "first_start cs1 c1 = (if ?flushed then position b else 0)"
    by blast
  from plan_loop_first_start[OF this(2) this(1)] this(3)
  have ne: "cs \<noteq> [] \<or> sections cur \<noteq> []"
    and fs: "first_start cs cur = (if ?flushed then position b else 0)"
    by simp_all
  note ft = finalize_tiles[OF t ne]
  show "chunks \<noteq> []" using ft(1) by (simp add: ch)
  show "concat (map (content_of doc) chunks) = drop (start_pos (hd chunks)) doc"
    using ft(2,3) by (simp add: ch)
  show "start_pos (hd chunks) =
          (if is_large rnd ?avail (first_section_tokens doc bs)
              \<or> would_exceed rnd ?avail max_out (new_chunk 0) (first_section_tokens doc bs)
           then position (hd bs) else 0)"
    using ft(2) fs by (simp add: ch n_def bs)
qed













text \<open>
  Inputs of the examples: a boundary as the \<open>standard_headers\<close> strategy builds it, and a
  string as long as \<open>self.system_prompt\<close> (7724 characters, 1931 estimated tokens), so
  that the default budgets leave \<open>750000 - 1931 - 1000 = 747069\<close> tokens.
\<close>

definition demo_boundary :: "string \<Rightarrow> string \<Rightarrow> nat \<Rightarrow> boundary" where
  "demo_boundary num ttl pos =
     \<lparr>item_number = Some num, title = ttl, position = pos,
      end_position = pos + length (''Item '' @ num @ ''. '' @ ttl), confidence = 7 / 10,
      strategy = ''standard_headers'', full_match = ''Item '' @ num @ ''. '' @ ttl,
      context_before = [], context_after = []\<rparr>"

definition demo_prompt :: string where
  "demo_prompt = replicate 7724 (CHR ''#'')"

lemma demo_available: "available_tokens_of demo_prompt 750000 = 747069"
  by (simp add: available_tokens_of_def demo_prompt_def estimate_token_count_def)

lemma slice_replicate: "slice (replicate n x) a b = replicate (min b n - a) x"
  by (simp add: slice_def)

text \<open>
  The float products and sums of the examples, computed with \<open>round_double\<close>:
  \<open>747069 * 0.8\<close> is \<open>597655.2000000001\<close>, and the others are exact.
\<close>

lemma demo_floats:
  "int_times_float round_double 747069 (4 / 5) = 5133819076568679 / 8589934592"
  "int_times_float round_double 25000 (1 / 10) = 2500"
  "int_times_float round_double 725000 (1 / 10) = 72500"
  "int_times_float round_double 100000 (1 / 10) = 10000"
  "float_plus round_double 0 2500 = 2500"
  "float_plus round_double 0 10000 = 10000"
  by code_simp+

lemmas planner_eval =
  create_processing_chunks_def demo_available Let_def slice_replicate
  estimate_token_count_def is_large_def would_exceed_def demo_floats
  estimated_output_of_def new_chunk_def finalize_def demo_boundary_def




section \<open>Boundary detector\<close>

text \<open>
  \<open>detect_section_boundaries\<close> runs five regular expressions over the document and then
  filters the matches. The regular expression engine and the string methods are
  Python's, not the repository's, and are parameters of the model (\<open>pylib\<close>):
  \<^item> \<open>finditer name text\<close> is \<open>list(re.finditer(pattern, text, re.IGNORECASE | re.MULTILINE))\<close>
    for the pattern of the strategy \<open>name\<close>: the matches in order, each with its
    start, its end, the matched text and the groups 1 and 2 (every pattern but that of
    \<open>part_headers\<close> has both groups in every match, so the \<open>except: continue\<close> around
    the group access never runs; \<open>part_headers\<close> has no group and the code reads none);
  \<^item> \<open>sub_decoration text\<close> is \<open>re.sub(r'[...\s\n\-=_]', '', text)\<close>, the text without
    box-drawing characters, white space, dashes, equal signs and underscores;
  \<^item> \<open>strip\<close> and \<open>upper\<close> are \<open>str.strip\<close> and \<open>str.upper\<close>.
\<close>

record re_match =
  m_start :: nat
  m_end :: nat
  m_text :: string
  m_group1 :: string
  m_group2 :: string

record pylib =
  finditer :: "string \<Rightarrow> string \<Rightarrow> re_match list"
  sub_decoration :: "string \<Rightarrow> string"
  strip :: "string \<Rightarrow> string"
  upper :: "string \<Rightarrow> string"

text \<open>The table \<open>strategies\<close>: the name and the confidence of each strategy, in order.\<close>

definition strategies :: "(string \<times> rat) list" where
  "strategies =
     [(''boxed_headers'', 9 / 10), (''bold_headers'', 8 / 10), (''standard_headers'', 7 / 10),
      (''toc_entries'', 6 / 10), (''part_headers'', 5 / 10)]"

definition boundary_of_match :: "pylib \<Rightarrow> string \<Rightarrow> string \<Rightarrow> rat \<Rightarrow> re_match \<Rightarrow> boundary" where
  "boundary_of_match lib document_content name conf m =
     \<lparr>item_number = (if name = ''part_headers'' then None else Some (m_group1 m)),
      title = (if name = ''part_headers'' then strip lib (m_text m) else strip lib (m_group2 m)),
      position = m_start m,
      end_position = m_end m,
      confidence = conf,
      strategy = name,
      full_match = m_text m,
      context_before = slice document_content (m_start m - 100) (m_start m),
      context_after = slice document_content (m_end m) (m_end m + 100)\<rparr>"

text \<open>The loop \<open>for strategy in strategies\<close> with its inner loop over the matches.\<close>

definition collect_boundaries :: "pylib \<Rightarrow> string \<Rightarrow> boundary list" where
  "collect_boundaries lib document_content =
     concat (map (\<lambda>(name, conf).
                map (boundary_of_match lib document_content name conf)
                    (finditer lib name document_content))
             strategies)"

text \<open>
  The first filter, on the pair of \<open>filtered_boundaries\<close> and the dict \<open>seen_items\<close>;
  \<open>dedup_step\<close> is the body of its loop.
  \<open>if boundary['item_number']\<close> is false for \<open>None\<close> and for the empty string.
  \<open>filtered_boundaries.remove(x)\<close> removes the first element equal to \<open>x\<close>; it is only
  called with an entry of \<open>seen_items\<close>, which is in the list (lemma
  \<open>dedup_loop_seen_in_filtered\<close> below), so that it does not raise.
\<close>

definition has_item_number :: "boundary \<Rightarrow> bool" where
  "has_item_number b = (case item_number b of None \<Rightarrow> False | Some k \<Rightarrow> k \<noteq> [])"

definition has_content :: "pylib \<Rightarrow> string \<Rightarrow> boundary \<Rightarrow> bool" where
  "has_content lib document_content b =
     (length (sub_decoration lib (slice document_content (position b) (position b + 1000))) > 100)"

definition dedup_step :: "pylib \<Rightarrow> string \<Rightarrow> boundary
    \<Rightarrow> boundary list \<times> (string \<rightharpoonup> boundary) \<Rightarrow> boundary list \<times> (string \<rightharpoonup> boundary)" where
  "dedup_step lib document_content b st =
     (case st of (filtered_boundaries, seen_items) \<Rightarrow>
        if has_item_number b then
          (let boundary_key = the (item_number b) in
           case seen_items boundary_key of
             None \<Rightarrow> (filtered_boundaries @ [b], seen_items(boundary_key \<mapsto> b))
           | Some old \<Rightarrow>
               if confidence b > confidence old
               then (remove1 old filtered_boundaries @ [b], seen_items(boundary_key \<mapsto> b))
               else (filtered_boundaries, seen_items))
        else
          (let part_title = upper lib (strip lib (title b)) in
           if seen_items part_title = None \<and> has_content lib document_content b
           then (filtered_boundaries @ [b], seen_items(part_title \<mapsto> b))
           else (filtered_boundaries, seen_items)))"

fun dedup_loop :: "pylib \<Rightarrow> string \<Rightarrow> boundary list
    \<Rightarrow> boundary list \<times> (string \<rightharpoonup> boundary) \<Rightarrow> boundary list \<times> (string \<rightharpoonup> boundary)" where
  "dedup_loop lib document_content [] st = st"
| "dedup_loop lib document_content (b # rest) st =
     dedup_loop lib document_content rest (dedup_step lib document_content b st)"

text \<open>
  The second filter: a boundary within 200 characters of one already kept is dropped.
  \<open>abs(p - q)\<close> on positions is the distance of two natural numbers.
\<close>

definition too_close :: "boundary \<Rightarrow> boundary \<Rightarrow> bool" where
  "too_close b existing =
     ((if position b \<ge> position existing then position b - position existing
       else position existing - position b) < 200)"

fun proximity_loop :: "boundary list \<Rightarrow> boundary list \<Rightarrow> boundary list" where
  "proximity_loop final_boundaries [] = final_boundaries"
| "proximity_loop final_boundaries (b # rest) =
     proximity_loop
       (if list_ex (too_close b) final_boundaries then final_boundaries else final_boundaries @ [b])
       rest"

text \<open>The boundaries after the first filter, sorted again by position (stable, as
  \<open>list.sort\<close> is), and \<open>detect_section_boundaries\<close>.\<close>

definition deduplicated :: "pylib \<Rightarrow> string \<Rightarrow> boundary list" where
  "deduplicated lib document_content =
     sort_key position
       (fst (dedup_loop lib document_content
               (sort_key position (collect_boundaries lib document_content)) ([], Map.empty)))"

definition detect_section_boundaries :: "pylib \<Rightarrow> string \<Rightarrow> boundary list" where
  "detect_section_boundaries lib document_content =
     proximity_loop [] (deduplicated lib document_content)"

subsection \<open>What survives the filters\<close>

text \<open>
  \<open>with_item k\<close> selects the boundaries of item number \<open>k\<close>. \<open>first_best a cands\<close>: in
  the list \<open>cands\<close>, \<open>a\<close> has the maximum confidence and is the first that has it.
  \<open>dedup_inv\<close> is the invariant of the first filter after the boundaries \<open>processed\<close>:
  every entry of \<open>seen_items\<close> is in \<open>filtered_boundaries\<close> under its own key, and
  each item number seen so far has exactly its first best candidate in the list.
  \<open>groups_present\<close> states what the patterns guarantee of every match: group 1,
  \<open>\d+[A-C]?\<close>, is not empty.
\<close>

definition with_item :: "string \<Rightarrow> boundary list \<Rightarrow> boundary list" where
  "with_item k bs = filter (\<lambda>b. item_number b = Some k) bs"

definition first_best :: "boundary \<Rightarrow> boundary list \<Rightarrow> bool" where
  "first_best a cands \<longleftrightarrow>
     (\<exists>ys zs. cands = ys @ a # zs \<and> (\<forall>c \<in> set ys. confidence c < confidence a)
        \<and> (\<forall>c \<in> set zs. confidence c \<le> confidence a))"

definition wf_boundary :: "boundary \<Rightarrow> bool" where
  "wf_boundary b \<longleftrightarrow> (if has_item_number b then confidence b > 1 / 2 else confidence b = 1 / 2)"

definition key_of :: "pylib \<Rightarrow> boundary \<Rightarrow> string" where
  "key_of lib b = (if has_item_number b then the (item_number b) else upper lib (strip lib (title b)))"

definition dedup_inv :: "pylib \<Rightarrow> boundary list \<Rightarrow> boundary list \<times> (string \<rightharpoonup> boundary) \<Rightarrow> bool" where
  "dedup_inv lib processed st \<longleftrightarrow>
     (case st of (filtered, seen) \<Rightarrow>
        (\<forall>k p. seen k = Some p \<longrightarrow> p \<in> set filtered \<and> key_of lib p = k \<and> wf_boundary p)
      \<and> (\<forall>k. k \<noteq> [] \<longrightarrow>
            (if with_item k processed = []
             then with_item k filtered = [] \<and> (\<forall>p. seen k = Some p \<longrightarrow> \<not> has_item_number p)
             else (\<exists>a. seen k = Some a \<and> with_item k filtered = [a]
                        \<and> first_best a (with_item k processed)))))"

lemma first_best_single: "first_best a [a]"
  unfolding first_best_def by (intro exI[of _ "[]"]) simp

lemma first_best_snoc_le:
  "first_best a cs \<Longrightarrow> confidence b \<le> confidence a \<Longrightarrow> first_best a (cs @ [b])"
  unfolding first_best_def by (elim exE conjE, rule_tac x = ys in exI, rule_tac x = "zs @ [b]" in exI) auto

lemma first_best_snoc_gt:
  "first_best a cs \<Longrightarrow> confidence a < confidence b \<Longrightarrow> first_best b (cs @ [b])"
  unfolding first_best_def by (elim exE conjE, rule_tac x = cs in exI, rule_tac x = "[]" in exI) fastforce

lemma with_item_simps [simp]:
  "with_item k [] = []"
  "with_item k (xs @ ys) = with_item k xs @ with_item k ys"
  "with_item k (b # bs) = (if item_number b = Some k then b # with_item k bs else with_item k bs)"
  by (simp_all add: with_item_def)

lemma with_item_remove1: "with_item k (remove1 x xs) = remove1 x (with_item k xs)"
  by (simp add: with_item_def filter_remove1)

lemma with_item_notin: "item_number x \<noteq> Some k \<Longrightarrow> x \<notin> set (with_item k xs)"
  by (simp add: with_item_def)


lemma not_has_item_number: "\<not> has_item_number b \<Longrightarrow> k \<noteq> [] \<Longrightarrow> item_number b \<noteq> Some k"
  by (auto simp: has_item_number_def)

lemma has_item_numberD: "has_item_number b \<Longrightarrow> item_number b = Some (the (item_number b)) \<and> the (item_number b) \<noteq> []"
  by (auto simp: has_item_number_def split: option.splits)

lemma key_of_item: "key_of lib p = kb \<Longrightarrow> k \<noteq> kb \<Longrightarrow> k \<noteq> [] \<Longrightarrow> item_number p \<noteq> Some k"
  by (auto simp: key_of_def has_item_number_def split: if_splits option.splits)

lemma dedup_invI:
  assumes "\<And>k p. S k = Some p \<Longrightarrow> p \<in> set F \<and> key_of lib p = k \<and> wf_boundary p"
    and "\<And>k. k \<noteq> [] \<Longrightarrow>
            (if with_item k P = []
             then with_item k F = [] \<and> (\<forall>p. S k = Some p \<longrightarrow> \<not> has_item_number p)
             else (\<exists>a. S k = Some a \<and> with_item k F = [a] \<and> first_best a (with_item k P)))"
  shows "dedup_inv lib P (F, S)"
  unfolding dedup_inv_def prod.case
  using assms(1) assms(2) by (intro conjI allI impI) blast+

lemma dedup_step_inv:
  assumes inv: "dedup_inv lib P (F, S)" and wf: "wf_boundary b"
  shows "dedup_inv lib (P @ [b]) (dedup_step lib doc b (F, S))"
proof -
  from inv have i1: "p \<in> set F \<and> key_of lib p = k \<and> wf_boundary p" if "S k = Some p" for k p
    using that unfolding dedup_inv_def by simp
  from inv have i0: "if with_item k P = []
             then with_item k F = [] \<and> (\<forall>p. S k = Some p \<longrightarrow> \<not> has_item_number p)
             else (\<exists>a. S k = Some a \<and> with_item k F = [a] \<and> first_best a (with_item k P))"
    if "k \<noteq> []" for k
    using that unfolding dedup_inv_def by simp
  have i2: "with_item k F = [] \<and> (\<forall>p. S k = Some p \<longrightarrow> \<not> has_item_number p)"
    if "k \<noteq> []" "with_item k P = []" for k
    using i0[OF that(1)] that(2) by simp
  have i3: "\<exists>a. S k = Some a \<and> with_item k F = [a] \<and> first_best a (with_item k P)"
    if "k \<noteq> []" "with_item k P \<noteq> []" for k
    using i0[OF that(1)] that(2) by simp
  show ?thesis
  proof (cases "has_item_number b")
    case True
    define kb where "kb = the (item_number b)"
    have kb: "item_number b = Some kb" "kb \<noteq> []"
      using has_item_numberD[OF True] by (simp_all add: kb_def)
    have keyb: "key_of lib b = kb" using True by (simp add: key_of_def kb_def)
    show ?thesis
    proof (cases "S kb")
      case None
      have P0: "with_item kb P = []"
        using i3[OF kb(2)] None by auto
      have st: "dedup_step lib doc b (F, S) = (F @ [b], S(kb \<mapsto> b))"
        using True None by (simp add: dedup_step_def kb_def)
      have p1: "p \<in> set (F @ [b]) \<and> key_of lib p = k \<and> wf_boundary p"
        if "(S(kb \<mapsto> b)) k = Some p" for k p
        using that i1[of k p] keyb wf by (auto split: if_splits)
      have p2: "if with_item k (P @ [b]) = []
             then with_item k (F @ [b]) = [] \<and> (\<forall>p. (S(kb \<mapsto> b)) k = Some p \<longrightarrow> \<not> has_item_number p)
             else (\<exists>a. (S(kb \<mapsto> b)) k = Some a \<and> with_item k (F @ [b]) = [a]
                        \<and> first_best a (with_item k (P @ [b])))" if "k \<noteq> []" for k
      proof (cases "k = kb")
        case True
        then show ?thesis using kb P0 i2[OF kb(2) P0] by (simp add: first_best_single)
      next
        case False
        then have "item_number b \<noteq> Some k" using kb by simp
        then show ?thesis using False i2[OF that] i3[OF that] by (cases "with_item k P = []") auto
      qed
      show ?thesis unfolding st by (rule dedup_invI[OF p1 p2])
    next
      case (Some old)
      note o1 = i1[OF Some]
      show ?thesis
      proof (cases "confidence b > confidence old")
        case gt: True
        have st: "dedup_step lib doc b (F, S) = (remove1 old F @ [b], S(kb \<mapsto> b))"
          using True Some gt by (simp add: dedup_step_def kb_def)
        have p1: "p \<in> set (remove1 old F @ [b]) \<and> key_of lib p = k \<and> wf_boundary p"
          if "(S(kb \<mapsto> b)) k = Some p" for k p
        proof (cases "k = kb")
          case True
          then show ?thesis using that keyb wf by simp
        next
          case False
          then have sp: "S k = Some p" using that by simp
          then have "p \<noteq> old" using i1[OF sp] o1 False by auto
          then show ?thesis using i1[OF sp] by simp
        qed
        have p2: "if with_item k (P @ [b]) = []
             then with_item k (remove1 old F @ [b]) = [] \<and> (\<forall>p. (S(kb \<mapsto> b)) k = Some p \<longrightarrow> \<not> has_item_number p)
             else (\<exists>a. (S(kb \<mapsto> b)) k = Some a \<and> with_item k (remove1 old F @ [b]) = [a]
                        \<and> first_best a (with_item k (P @ [b])))" if "k \<noteq> []" for k
        proof (cases "k = kb")
          case True
          show ?thesis
          proof (cases "with_item kb P = []")
            case e: True
            then show ?thesis using True kb i2[OF kb(2) e]
              by (simp add: with_item_remove1 first_best_single)
          next
            case ne: False
            from i3[OF kb(2) ne] Some have "with_item kb F = [old]" "first_best old (with_item kb P)"
              by auto
            then show ?thesis using True kb gt
              by (simp add: with_item_remove1 first_best_snoc_gt)
          qed
        next
          case False
          then have nb: "item_number b \<noteq> Some k" using kb by simp
          have "item_number old \<noteq> Some k"
            using key_of_item[of lib old kb k] o1 False that by simp
          then have "with_item k (remove1 old F) = with_item k F"
            by (simp add: with_item_remove1 remove1_idem with_item_notin)
          then show ?thesis using False nb i2[OF that] i3[OF that]
            by (cases "with_item k P = []") auto
        qed
        show ?thesis unfolding st by (rule dedup_invI[OF p1 p2])
      next
        case le: False
        have st: "dedup_step lib doc b (F, S) = (F, S)"
          using True Some le by (simp add: dedup_step_def kb_def)
        have p2: "if with_item k (P @ [b]) = []
             then with_item k F = [] \<and> (\<forall>p. S k = Some p \<longrightarrow> \<not> has_item_number p)
             else (\<exists>a. S k = Some a \<and> with_item k F = [a]
                        \<and> first_best a (with_item k (P @ [b])))" if "k \<noteq> []" for k
        proof (cases "k = kb")
          case True
          show ?thesis
          proof (cases "with_item kb P = []")
            case e: True
            then have "\<not> has_item_number old" using i2[OF kb(2) e] Some by simp
            then have "confidence old = 1 / 2" using o1 by (simp add: wf_boundary_def)
            moreover have "confidence b > 1 / 2" using wf \<open>has_item_number b\<close> by (simp add: wf_boundary_def)
            ultimately show ?thesis using le by simp
          next
            case ne: False
            from i3[OF kb(2) ne] Some have "with_item kb F = [old]" "first_best old (with_item kb P)"
              by auto
            then show ?thesis using True kb le Some
              by (simp add: first_best_snoc_le)
          qed
        next
          case False
          then have nb: "item_number b \<noteq> Some k" using kb by simp
          then show ?thesis using False i2[OF that] i3[OF that]
            by (cases "with_item k P = []") auto
        qed
        show ?thesis unfolding st by (rule dedup_invI[OF i1 p2])
      qed
    qed
  next
    case False
    define pt where "pt = upper lib (strip lib (title b))"
    have keyb: "key_of lib b = pt" using False by (simp add: key_of_def pt_def)
    have nb: "item_number b \<noteq> Some k" if "k \<noteq> []" for k
      using not_has_item_number[OF False that] .
    show ?thesis
    proof (cases "S pt = None \<and> has_content lib doc b")
      case True
      have st: "dedup_step lib doc b (F, S) = (F @ [b], S(pt \<mapsto> b))"
        using True False by (simp add: dedup_step_def pt_def)
      have p1: "p \<in> set (F @ [b]) \<and> key_of lib p = k \<and> wf_boundary p"
        if "(S(pt \<mapsto> b)) k = Some p" for k p
        using that i1[of k p] keyb wf by (auto split: if_splits)
      have p2: "if with_item k (P @ [b]) = []
             then with_item k (F @ [b]) = [] \<and> (\<forall>p. (S(pt \<mapsto> b)) k = Some p \<longrightarrow> \<not> has_item_number p)
             else (\<exists>a. (S(pt \<mapsto> b)) k = Some a \<and> with_item k (F @ [b]) = [a]
                        \<and> first_best a (with_item k (P @ [b])))" if "k \<noteq> []" for k
      proof (cases "with_item k P = []")
        case e: True
        then show ?thesis using nb[OF that] i2[OF that e] False by auto
      next
        case ne: False
        from i3[OF that ne] True have "k \<noteq> pt" by auto
        then show ?thesis using nb[OF that] i3[OF that ne] ne by auto
      qed
      show ?thesis unfolding st by (rule dedup_invI[OF p1 p2])
    next
      case c: False
      have st: "dedup_step lib doc b (F, S) = (F, S)"
        using c False by (auto simp: dedup_step_def pt_def)
      have p2: "if with_item k (P @ [b]) = []
             then with_item k F = [] \<and> (\<forall>p. S k = Some p \<longrightarrow> \<not> has_item_number p)
             else (\<exists>a. S k = Some a \<and> with_item k F = [a]
                        \<and> first_best a (with_item k (P @ [b])))" if "k \<noteq> []" for k
        using nb[OF that] i2[OF that] i3[OF that] by (cases "with_item k P = []") auto
      show ?thesis unfolding st by (rule dedup_invI[OF i1 p2])
    qed
  qed
qed

lemma dedup_loop_inv:
  "dedup_inv lib P st \<Longrightarrow> \<forall>b \<in> set bs. wf_boundary b \<Longrightarrow>
   dedup_inv lib (P @ bs) (dedup_loop lib doc bs st)"
proof (induction bs arbitrary: P st)
  case Nil
  then show ?case by simp
next
  case (Cons b bs)
  obtain F S where st: "st = (F, S)" by (cases st)
  have "dedup_inv lib (P @ [b]) (dedup_step lib doc b st)"
    using dedup_step_inv[of lib P F S b doc] Cons.prems by (simp add: st)
  from Cons.IH[OF this] Cons.prems(2) show ?case by simp
qed

lemma dedup_inv_initial: "dedup_inv lib [] ([], Map.empty)"
  by (simp add: dedup_inv_def)


definition groups_present :: "pylib \<Rightarrow> string \<Rightarrow> bool" where
  "groups_present lib doc \<longleftrightarrow>
     (\<forall>name m. name \<noteq> ''part_headers'' \<and> m \<in> set (finditer lib name doc) \<longrightarrow> m_group1 m \<noteq> [])"

lemma collect_boundaries_wf:
  assumes "groups_present lib doc"
  shows "\<forall>b \<in> set (collect_boundaries lib doc). wf_boundary b"
proof -
  have g: "m_group1 m \<noteq> []" if "name \<noteq> ''part_headers''" "m \<in> set (finditer lib name doc)" for name m
    using assms that unfolding groups_present_def by blast
  show ?thesis
    using g[of "''boxed_headers''"] g[of "''bold_headers''"] g[of "''standard_headers''"]
      g[of "''toc_entries''"]
    by (auto simp: collect_boundaries_def strategies_def boundary_of_match_def wf_boundary_def
        has_item_number_def)
qed

lemma proximity_loop_subset: "set (proximity_loop acc bs) \<subseteq> set acc \<union> set bs"
proof (induction bs arbitrary: acc)
  case Nil
  then show ?case by simp
next
  case (Cons b bs)
  show ?case
    using Cons.IH[of acc] Cons.IH[of "acc @ [b]"] by (auto split: if_splits)
qed

lemma proximity_loop_filter_length:
  "length (filter Q (proximity_loop acc bs)) \<le> length (filter Q acc) + length (filter Q bs)"
proof (induction bs arbitrary: acc)
  case Nil
  then show ?case by simp
next
  case (Cons b bs)
  show ?case
    using Cons.IH[of acc] Cons.IH[of "acc @ [b]"] by (auto split: if_splits)
qed

lemma proximity_loop_sorted:
  "sorted (map position (acc @ bs)) \<Longrightarrow> sorted (map position (proximity_loop acc bs))"
proof (induction bs arbitrary: acc)
  case Nil
  then show ?case by simp
next
  case (Cons b bs)
  have "sorted (map position (acc @ bs))"
    using Cons.prems by (auto simp: sorted_append)
  then show ?case
    using Cons.prems Cons.IH[of acc] Cons.IH[of "acc @ [b]"] by (auto split: if_splits)
qed

lemma first_best_sorted:
  assumes "first_best a cs" "sorted (map position cs)"
  shows "a \<in> set cs"
    and "\<forall>c \<in> set cs. confidence c \<le> confidence a \<and> (confidence c = confidence a \<longrightarrow> position a \<le> position c)"
proof -
  from assms(1) obtain ys zs where
    cs: "cs = ys @ a # zs" and y: "\<forall>c \<in> set ys. confidence c < confidence a"
    and z: "\<forall>c \<in> set zs. confidence c \<le> confidence a"
    unfolding first_best_def by blast
  show "a \<in> set cs" by (simp add: cs)
  have "\<forall>c \<in> set zs. position a \<le> position c"
    using assms(2) by (auto simp: cs sorted_append)
  then show "\<forall>c \<in> set cs. confidence c \<le> confidence a \<and> (confidence c = confidence a \<longrightarrow> position a \<le> position c)"
    using y z by (auto simp: cs)
qed

lemma deduplicated_item:
  assumes "groups_present lib doc" "k \<noteq> []" "with_item k (collect_boundaries lib doc) \<noteq> []"
  shows "\<exists>a. with_item k (deduplicated lib doc) = [a]
           \<and> a \<in> set (with_item k (collect_boundaries lib doc))
           \<and> (\<forall>c \<in> set (with_item k (collect_boundaries lib doc)).
                 confidence c \<le> confidence a \<and> (confidence c = confidence a \<longrightarrow> position a \<le> position c))"
proof -
  define P where "P = sort_key position (collect_boundaries lib doc)"
  obtain F S where fs: "dedup_loop lib doc P ([], Map.empty) = (F, S)"
    by (cases "dedup_loop lib doc P ([], Map.empty)")
  have wf: "\<forall>b \<in> set P. wf_boundary b"
    using collect_boundaries_wf[OF assms(1)] by (simp add: P_def)
  have inv: "dedup_inv lib P (F, S)"
    using dedup_loop_inv[OF dedup_inv_initial wf, of lib doc] by (simp add: fs)
  have setP: "set (with_item k P) = set (with_item k (collect_boundaries lib doc))"
    by (simp add: P_def with_item_def)
  then have ne: "with_item k P \<noteq> []" using assms(3) by (metis set_empty)
  from inv assms(2) ne obtain a where
    a: "with_item k F = [a]" "first_best a (with_item k P)"
    unfolding dedup_inv_def by (simp split: if_splits) blast
  have srt: "sorted (map position (with_item k P))"
    unfolding with_item_def P_def by (intro sorted_filter) simp
  have "with_item k (deduplicated lib doc) = sort_key position (with_item k F)"
    by (simp add: deduplicated_def P_def[symmetric] fs with_item_def filter_sort)
  then have "with_item k (deduplicated lib doc) = [a]" using a(1) by simp
  then show ?thesis
    using first_best_sorted[OF a(2) srt] setP by auto
qed

lemma proximity_loop_append:
  "proximity_loop acc (xs @ ys) = proximity_loop (proximity_loop acc xs) ys"
  by (induction xs arbitrary: acc) simp_all

lemma proximity_loop_extends:
  "\<exists>later. proximity_loop acc ys = acc @ later \<and> set later \<subseteq> set ys"
proof (induction ys arbitrary: acc)
  case Nil
  then show ?case by simp
next
  case (Cons b ys)
  show ?case
  proof (cases "list_ex (too_close b) acc")
    case True
    from Cons.IH[of acc] obtain later where
      "proximity_loop acc ys = acc @ later" "set later \<subseteq> set ys" by blast
    then show ?thesis using True by auto
  next
    case False
    from Cons.IH[of "acc @ [b]"] obtain later where
      l: "proximity_loop (acc @ [b]) ys = (acc @ [b]) @ later" "set later \<subseteq> set ys" by blast
    have "proximity_loop acc (b # ys) = acc @ (b # later)"
      using False l(1) by simp
    moreover have "set (b # later) \<subseteq> set (b # ys)" using l(2) by auto
    ultimately show ?thesis by blast
  qed
qed

lemma too_close_iff:
  "too_close b e \<longleftrightarrow> \<bar>int (position b) - int (position e)\<bar> < 200"
  by (auto simp: too_close_def)

lemma list_ex_too_close:
  "list_ex (too_close b) kept \<longleftrightarrow> (\<exists>e \<in> set kept. \<bar>int (position b) - int (position e)\<bar> < 200)"
  by (simp add: list_ex_iff too_close_iff)

lemma detect_around:
  assumes "with_item k (deduplicated lib doc) = [a]"
  shows "\<exists>pre post kept later.
           deduplicated lib doc = pre @ a # post
         \<and> kept = proximity_loop [] pre
         \<and> set kept \<subseteq> set pre \<and> set later \<subseteq> set post
         \<and> (\<forall>e \<in> set kept. position e \<le> position a)
         \<and> detect_section_boundaries lib doc
             = kept @ (if \<exists>e \<in> set kept. \<bar>int (position a) - int (position e)\<bar> < 200
                       then [] else [a]) @ later
         \<and> with_item k (detect_section_boundaries lib doc)
             = (if \<exists>e \<in> set kept. \<bar>int (position a) - int (position e)\<bar> < 200
                then [] else [a])"
proof -
  from assms obtain pre post where
    ds: "deduplicated lib doc = pre @ a # post"
    and pre: "\<forall>u \<in> set pre. item_number u \<noteq> Some k"
    and a: "item_number a = Some k"
    and post: "[] = filter (\<lambda>b. item_number b = Some k) post"
    unfolding with_item_def filter_eq_Cons_iff by blast
  define kept where "kept = proximity_loop [] pre"
  define close where "close \<longleftrightarrow> (\<exists>e \<in> set kept. \<bar>int (position a) - int (position e)\<bar> < 200)"
  define mid where "mid = (if close then [] else [a])"
  have sub: "set kept \<subseteq> set pre"
    using proximity_loop_subset[of "[]" pre] by (simp add: kept_def)
  obtain later where
    l: "proximity_loop (kept @ mid) post = (kept @ mid) @ later" "set later \<subseteq> set post"
    using proximity_loop_extends[of "kept @ mid" post] by blast
  have step: "proximity_loop kept (a # post) = proximity_loop (kept @ mid) post"
    using list_ex_too_close[of a kept] by (simp add: mid_def close_def)
  have det: "detect_section_boundaries lib doc = kept @ mid @ later"
    unfolding detect_section_boundaries_def ds proximity_loop_append kept_def[symmetric] step l(1)
    by simp
  have srt: "sorted (map position (pre @ a # post))"
    unfolding ds[symmetric] deduplicated_def by simp
  then have ord: "\<forall>e \<in> set kept. position e \<le> position a"
    using sub by (auto simp: sorted_append)
  have nk: "with_item k kept = []"
    using sub pre by (auto simp: with_item_def filter_empty_conv)
  have post': "\<forall>u \<in> set post. item_number u \<noteq> Some k"
    using post[symmetric] by (simp add: filter_empty_conv)
  have nl: "with_item k later = []"
    using l(2) post' by (auto simp: with_item_def filter_empty_conv)
  have wm: "with_item k mid = mid"
    using a by (simp add: mid_def with_item_def)
  have wi: "with_item k (detect_section_boundaries lib doc) = mid"
    by (simp add: det nk nl wm)
  show ?thesis
    apply (rule exI[of _ pre], rule exI[of _ post], rule exI[of _ kept], rule exI[of _ later])
    using ds sub l(2) ord det wi kept_def
    unfolding mid_def close_def by simp
qed

lemma detect_sorted: "sorted (map position (detect_section_boundaries lib doc))"
  unfolding detect_section_boundaries_def
  by (rule proximity_loop_sorted) (simp add: deduplicated_def)

lemma dedup_loop_seen_in_filtered:
  assumes "\<forall>b \<in> set bs. wf_boundary b" "dedup_loop lib doc bs ([], Map.empty) = (F, S)"
    "S k = Some p"
  shows "p \<in> set F"
  using dedup_loop_inv[OF dedup_inv_initial assms(1), of lib doc] assms(2,3)
  by (simp add: dedup_inv_def)

text \<open>
  The text of the examples, with the matches Python's \<open>re\<close> finds in it: the patterns of
  \<open>bold_headers\<close> and \<open>standard_headers\<close> both match the two headers (the search
  ignores case), the other patterns match nothing.
\<close>

definition demo_text :: string where
  "demo_text = ''Item 1. Business'' @ [CHR 0x0A] @ ''Item 1A. Risk Factors'' @ [CHR 0x0A]"

definition is_blank :: "char \<Rightarrow> bool" where
  "is_blank c = (c \<in> set [CHR '' '', CHR 0x09, CHR 0x0A, CHR 0x0D])"

definition ascii_upper :: "char \<Rightarrow> char" where
  "ascii_upper c =
     (let n = (of_char c :: nat) in if 97 \<le> n \<and> n \<le> 122 then char_of (n - 32) else c)"

definition demo_matches :: "re_match list" where
  "demo_matches =
     [\<lparr>m_start = 0, m_end = 17, m_text = ''Item 1. Business'' @ [CHR 0x0A],
       m_group1 = ''1'', m_group2 = ''Business''\<rparr>,
      \<lparr>m_start = 17, m_end = 39, m_text = ''Item 1A. Risk Factors'' @ [CHR 0x0A],
       m_group1 = ''1A'', m_group2 = ''Risk Factors''\<rparr>]"

definition demo_lib :: pylib where
  "demo_lib =
     \<lparr>finditer = (\<lambda>name text.
         if text = demo_text \<and> (name = ''bold_headers'' \<or> name = ''standard_headers'')
         then demo_matches else []),
      sub_decoration = filter (\<lambda>c. \<not> is_blank c \<and> c \<notin> set ''-=_''),
      strip = (\<lambda>s. rev (dropWhile is_blank (rev (dropWhile is_blank s)))),
      upper = map ascii_upper\<rparr>"

text \<open>
  Claim C3, as amended. For every text, an item number with at least one match has
  exactly one boundary \<open>a\<close> after the confidence filter: the candidate of maximum
  confidence, and among those of equal confidence the one of least position. The
  proximity filter that follows goes through the boundaries in order of position. With
  \<open>kept\<close> the boundaries it has kept of those before \<open>a\<close>, it drops \<open>a\<close> when \<open>a\<close>
  is less than 200 characters from a boundary of \<open>kept\<close>, and keeps it otherwise: the
  returned list is \<open>kept\<close>, then \<open>a\<close> or nothing, then boundaries from after \<open>a\<close>, and
  the item number is on \<open>a\<close> alone or on no boundary. The returned list is sorted by
  position.
\<close>

theorem detect_keeps_best_candidate:
  assumes "groups_present lib document_content" and "k \<noteq> []"
    and "with_item k (collect_boundaries lib document_content) \<noteq> []"
  shows "\<exists>a pre post kept later.
           with_item k (deduplicated lib document_content) = [a]
         \<and> a \<in> set (with_item k (collect_boundaries lib document_content))
         \<and> (\<forall>c \<in> set (with_item k (collect_boundaries lib document_content)).
               confidence c \<le> confidence a
               \<and> (confidence c = confidence a \<longrightarrow> position a \<le> position c))
         \<and> deduplicated lib document_content = pre @ a # post
         \<and> kept = proximity_loop [] pre
         \<and> set kept \<subseteq> set pre \<and> set later \<subseteq> set post
         \<and> (\<forall>e \<in> set kept. position e \<le> position a)
         \<and> detect_section_boundaries lib document_content
             = kept @ (if \<exists>e \<in> set kept. \<bar>int (position a) - int (position e)\<bar> < 200
                       then [] else [a]) @ later
         \<and> with_item k (detect_section_boundaries lib document_content)
             = (if \<exists>e \<in> set kept. \<bar>int (position a) - int (position e)\<bar> < 200
                then [] else [a])
         \<and> sorted (map position (detect_section_boundaries lib document_content))"
proof -
  from deduplicated_item[OF assms] obtain a where
    a: "with_item k (deduplicated lib document_content) = [a]"
      "a \<in> set (with_item k (collect_boundaries lib document_content))"
      "\<forall>c \<in> set (with_item k (collect_boundaries lib document_content)).
                  confidence c \<le> confidence a
                  \<and> (confidence c = confidence a \<longrightarrow> position a \<le> position c)"
    by blast
  from detect_around[OF a(1)] obtain pre post kept later where
    d: "deduplicated lib document_content = pre @ a # post"
      "kept = proximity_loop [] pre"
      "set kept \<subseteq> set pre" "set later \<subseteq> set post"
      "\<forall>e \<in> set kept. position e \<le> position a"
      "detect_section_boundaries lib document_content
             = kept @ (if \<exists>e \<in> set kept. \<bar>int (position a) - int (position e)\<bar> < 200
                       then [] else [a]) @ later"
      "with_item k (detect_section_boundaries lib document_content)
             = (if \<exists>e \<in> set kept. \<bar>int (position a) - int (position e)\<bar> < 200
                then [] else [a])"
    by blast
  show ?thesis
    apply (rule exI[of _ a], rule exI[of _ pre], rule exI[of _ post], rule exI[of _ kept],
        rule exI[of _ later])
    apply (intro conjI)
    apply (rule a(1))
    apply (rule a(2))
    apply (rule a(3))
    apply (rule d(1))
    apply (rule d(2))
    apply (rule d(3))
    apply (rule d(4))
    apply (rule d(5))
    apply (rule d(6))
    apply (rule d(7))
    apply (rule detect_sorted)
    done
qed

theorem detect_keeps_best_candidate_witness:
  "\<exists>a pre post kept later.
           with_item ''1'' (deduplicated demo_lib demo_text) = [a]
         \<and> a \<in> set (with_item ''1'' (collect_boundaries demo_lib demo_text))
         \<and> (\<forall>c \<in> set (with_item ''1'' (collect_boundaries demo_lib demo_text)).
               confidence c \<le> confidence a
               \<and> (confidence c = confidence a \<longrightarrow> position a \<le> position c))
         \<and> deduplicated demo_lib demo_text = pre @ a # post
         \<and> kept = proximity_loop [] pre
         \<and> set kept \<subseteq> set pre \<and> set later \<subseteq> set post
         \<and> (\<forall>e \<in> set kept. position e \<le> position a)
         \<and> detect_section_boundaries demo_lib demo_text
             = kept @ (if \<exists>e \<in> set kept. \<bar>int (position a) - int (position e)\<bar> < 200
                       then [] else [a]) @ later
         \<and> with_item ''1'' (detect_section_boundaries demo_lib demo_text)
             = (if \<exists>e \<in> set kept. \<bar>int (position a) - int (position e)\<bar> < 200
                then [] else [a])
         \<and> sorted (map position (detect_section_boundaries demo_lib demo_text))"
proof -
  have g: "groups_present demo_lib demo_text"
    by (auto simp: groups_present_def demo_lib_def demo_matches_def)
  have k: "''1'' \<noteq> []"
    by simp
  have n: "with_item ''1'' (collect_boundaries demo_lib demo_text) \<noteq> []"
    by code_simp
  show ?thesis
    by (rule detect_keeps_best_candidate[OF g k n])
qed

theorem detect_exactly_one_counterexample:
  "map strategy (with_item ''1A'' (collect_boundaries demo_lib demo_text))
     = [''bold_headers'', ''standard_headers'']
   \<and> with_item ''1A'' (detect_section_boundaries demo_lib demo_text) = []"
  by code_simp

section \<open>Processing chunks\<close>

text \<open>
  \<open>extract_sections_dynamic\<close> returns the planned chunks with their content, or, when no
  boundary is found, the single chunk
  \<open>{'content': document_content, 'sections': [{'item_number': 'ALL', 'title': 'Complete Document'}], 'chunk_id': 1}\<close>,
  which has none of the other keys and is modelled by \<open>Whole document_content\<close>.
  It plans with the default budgets of \<open>create_processing_chunks\<close>.
\<close>

datatype work_chunk = Planned chunk | Whole string

fun work_content :: "work_chunk \<Rightarrow> string" where
  "work_content (Planned c) = content c"
| "work_content (Whole document_content) = document_content"

fun work_start :: "work_chunk \<Rightarrow> nat" where
  "work_start (Planned c) = start_pos c"
| "work_start (Whole document_content) = 0"

definition extract_sections_dynamic :: "pylib \<Rightarrow> rounding \<Rightarrow> string \<Rightarrow> string \<Rightarrow> work_chunk list" where
  "extract_sections_dynamic lib rnd system_prompt document_content =
     (let boundaries = detect_section_boundaries lib document_content in
      if boundaries = [] then [Whole document_content]
      else map Planned
             (processing_chunks_from 0 document_content
                (create_processing_chunks rnd system_prompt document_content boundaries 750000 8000)))"

text \<open>
  \<open>first_section_flushed\<close>: the first section does not go into the chunk the planner
  starts with at offset 0, because it is oversized or alone exceeds a budget.
\<close>

definition first_section_flushed :: "rounding \<Rightarrow> string \<Rightarrow> string \<Rightarrow> boundary list \<Rightarrow> int \<Rightarrow> int \<Rightarrow> bool" where
  "first_section_flushed rnd system_prompt document_content boundaries max_input_tokens max_output_tokens \<longleftrightarrow>
     is_large rnd (available_tokens_of system_prompt max_input_tokens)
       (first_section_tokens document_content boundaries)
     \<or> would_exceed rnd (available_tokens_of system_prompt max_input_tokens) max_output_tokens
          (new_chunk 0) (first_section_tokens document_content boundaries)"

lemma processing_chunks_from_start:
  "cs \<noteq> [] \<Longrightarrow> start_pos (hd (processing_chunks_from i doc cs)) = start_pos (hd cs)"
  by (cases cs) simp_all

lemma processing_chunks_from_Nil: "processing_chunks_from i doc cs = [] \<longleftrightarrow> cs = []"
  by (cases cs) simp_all

lemma work_content_Planned: "map work_content (map Planned cs) = map content cs"
  by (induction cs) simp_all

text \<open>
  What the planner guarantees. For boundaries sorted by position (as
  \<open>detect_section_boundaries\<close> returns them) and at least one boundary, the contents of
  the chunks, concatenated in order, are the document from the start offset of the first
  chunk to its end: no gap and no overlap between chunks. They are the whole document
  when the first boundary is at offset 0 or when the first section goes into the chunk the
  planner starts at offset 0. The same holds of the chunks \<open>extract_sections_dynamic\<close>
  returns, whose single chunk for a document without boundaries is the whole document.
\<close>

lemma chunks_reconstruct_document:
  fixes lib :: pylib and rnd :: rounding and system_prompt document_content :: string
    and boundaries :: "boundary list" and max_input_tokens max_output_tokens :: int
  defines "chunks \<equiv> processing_chunks_from 0 document_content
      (create_processing_chunks rnd system_prompt document_content boundaries
         max_input_tokens max_output_tokens)"
  defines "work \<equiv> extract_sections_dynamic lib rnd system_prompt document_content"
  shows "(sorted (map position boundaries) \<and> boundaries \<noteq> [] \<longrightarrow>
            chunks \<noteq> []
            \<and> concat (map content chunks) = drop (start_pos (hd chunks)) document_content
            \<and> (position (hd boundaries) = 0
                 \<or> \<not> first_section_flushed rnd system_prompt document_content boundaries
                       max_input_tokens max_output_tokens
               \<longrightarrow> concat (map content chunks) = document_content))
       \<and> work \<noteq> []
       \<and> concat (map work_content work) = drop (work_start (hd work)) document_content
       \<and> (detect_section_boundaries lib document_content = []
            \<or> position (hd (detect_section_boundaries lib document_content)) = 0
            \<or> \<not> first_section_flushed rnd system_prompt document_content
                  (detect_section_boundaries lib document_content) 750000 8000
          \<longrightarrow> concat (map work_content work) = document_content)"
proof -
  have planner: "cs \<noteq> []
            \<and> concat (map content cs) = drop (start_pos (hd cs)) document_content
            \<and> (position (hd bs) = 0
                 \<or> \<not> first_section_flushed rnd system_prompt document_content bs mi mo
               \<longrightarrow> start_pos (hd cs) = 0)"
    if "sorted (map position bs)" "bs \<noteq> []"
      and "cs = processing_chunks_from 0 document_content
             (create_processing_chunks rnd system_prompt document_content bs mi mo)"
    for bs mi mo cs
    using create_processing_chunks_tiles[OF that(1,2), where rnd = rnd and sp = system_prompt
        and doc = document_content and max_in = mi and max_out = mo]
    by (auto simp: that(3) processing_chunks_from_Nil processing_chunks_from_start
        content_processing_chunks_from first_section_flushed_def)
  have p1: "sorted (map position boundaries) \<and> boundaries \<noteq> [] \<longrightarrow>
            chunks \<noteq> []
            \<and> concat (map content chunks) = drop (start_pos (hd chunks)) document_content
            \<and> (position (hd boundaries) = 0
                 \<or> \<not> first_section_flushed rnd system_prompt document_content boundaries
                       max_input_tokens max_output_tokens
               \<longrightarrow> concat (map content chunks) = document_content)"
    using planner[of boundaries chunks max_input_tokens max_output_tokens]
    by (auto simp: chunks_def)
  let ?bs = "detect_section_boundaries lib document_content"
  have p2: "work \<noteq> []
       \<and> concat (map work_content work) = drop (work_start (hd work)) document_content
       \<and> (?bs = [] \<or> position (hd ?bs) = 0
            \<or> \<not> first_section_flushed rnd system_prompt document_content ?bs 750000 8000
          \<longrightarrow> concat (map work_content work) = document_content)"
  proof (cases "?bs = []")
    case True
    then show ?thesis by (simp add: work_def extract_sections_dynamic_def)
  next
    case False
    define cs where "cs = processing_chunks_from 0 document_content
             (create_processing_chunks rnd system_prompt document_content ?bs 750000 8000)"
    have w: "work = map Planned cs"
      using False by (simp add: work_def extract_sections_dynamic_def cs_def)
    from planner[OF detect_sorted False cs_def]
    have "cs \<noteq> []" "concat (map content cs) = drop (start_pos (hd cs)) document_content"
      "position (hd ?bs) = 0
         \<or> \<not> first_section_flushed rnd system_prompt document_content ?bs 750000 8000
       \<longrightarrow> start_pos (hd cs) = 0"
      by simp_all
    moreover have "work_start (hd work) = start_pos (hd cs)"
      using \<open>cs \<noteq> []\<close> by (cases cs) (simp_all add: w)
    moreover have "concat (map work_content work) = concat (map content cs)"
      by (simp only: w work_content_Planned)
    moreover have "work \<noteq> []"
      using \<open>cs \<noteq> []\<close> by (simp add: w)
    ultimately show ?thesis
      using False by simp
  qed
  show ?thesis by (rule conjI[OF p1 p2])
qed

lemma chunks_reconstruct_document_example:
  "concat (map content (processing_chunks_from 0 demo_text
      (create_processing_chunks round_double demo_prompt demo_text
         [demo_boundary ''1'' ''Business'' 0] 750000 8000))) = demo_text
   \<and> concat (map work_content (extract_sections_dynamic demo_lib round_double demo_prompt demo_text))
       = demo_text"
proof -
  note t = chunks_reconstruct_document[of "[demo_boundary ''1'' ''Business'' 0]" demo_text
      round_double demo_prompt 750000 8000 demo_lib]
  have h: "sorted (map position [demo_boundary ''1'' ''Business'' 0])
           \<and> [demo_boundary ''1'' ''Business'' 0] \<noteq> []"
    by simp
  have p: "position (hd [demo_boundary ''1'' ''Business'' 0]) = 0"
    by (simp add: demo_boundary_def)
  have d: "position (hd (detect_section_boundaries demo_lib demo_text)) = 0"
    by code_simp
  note a = t[THEN conjunct1, THEN mp, OF h]
  note a3 = a[THEN conjunct2, THEN conjunct2, THEN mp, OF disjI1, OF p]
  note b = t[THEN conjunct2, THEN conjunct2, THEN conjunct2, THEN mp, OF disjI2, OF disjI1, OF d]
  show ?thesis
    by (rule conjI[OF a3 b])
qed

text \<open>
  Claim C1: the contents of the chunks, concatenated in order, are the document. The
  planner starts with an empty chunk at offset 0, which takes the text before the first
  boundary along with the first section. When the first section must be flushed instead
  (here a section of 100000 estimated tokens, whose output estimate of 10000 alone exceeds
  the output budget of 8000), the empty chunk is dropped and the new chunk starts at the
  boundary: the 100 characters before the first boundary are in no chunk. With an output
  budget of 80000 the same document and boundary give the single chunk from 0.
\<close>

theorem chunks_reconstruct_counterexample:
  "map (\<lambda>c. (start_pos c, end_pos c))
     (create_processing_chunks round_double demo_prompt (replicate 400100 (CHR ''a''))
        [demo_boundary ''1'' ''Business'' 100] 750000 8000) = [(100, 400100)]
   \<and> concat (map content (processing_chunks_from 0 (replicate 400100 (CHR ''a''))
        (create_processing_chunks round_double demo_prompt (replicate 400100 (CHR ''a''))
           [demo_boundary ''1'' ''Business'' 100] 750000 8000)))
       = replicate 400000 (CHR ''a'')
   \<and> concat (map content (processing_chunks_from 0 (replicate 400100 (CHR ''a''))
        (create_processing_chunks round_double demo_prompt (replicate 400100 (CHR ''a''))
           [demo_boundary ''1'' ''Business'' 100] 750000 8000)))
       \<noteq> replicate 400100 (CHR ''a'')
   \<and> map (\<lambda>c. (start_pos c, end_pos c))
       (create_processing_chunks round_double demo_prompt (replicate 400100 (CHR ''a''))
          [demo_boundary ''1'' ''Business'' 100] 750000 80000) = [(0, 400100)]"
proof -
  have e: "create_processing_chunks round_double demo_prompt (replicate 400100 (CHR ''a''))
      [demo_boundary ''1'' ''Business'' 100] 750000 8000
   = [\<lparr>start_pos = 100, end_pos = 400100,
       sections = [section_of (demo_boundary ''1'' ''Business'' 100) ''Business'' 400100 100000],
       estimated_input_tokens = 100000, estimated_output_tokens = 10000\<rparr>]"
    by (simp add: planner_eval)
  have f: "create_processing_chunks round_double demo_prompt (replicate 400100 (CHR ''a''))
      [demo_boundary ''1'' ''Business'' 100] 750000 80000
   = [\<lparr>start_pos = 0, end_pos = 400100,
       sections = [section_of (demo_boundary ''1'' ''Business'' 100) ''Business'' 400100 100000],
       estimated_input_tokens = 100000, estimated_output_tokens = 10000\<rparr>]"
    by (simp add: planner_eval)
  have r: "replicate 400000 (CHR ''a'') \<noteq> replicate 400100 (CHR ''a'')"
    by (simp add: replicate_eq_replicate)
  show ?thesis
    unfolding e f using r by (simp add: slice_replicate)
qed

section \<open>Chunk processor with backtracking\<close>

text \<open>
  \<open>text[i:j]\<close> for Python integers \<open>i\<close> and \<open>j\<close>: a negative index counts from the
  end, and both are clipped to the text.
\<close>

definition py_index :: "nat \<Rightarrow> int \<Rightarrow> nat" where
  "py_index len i = (if i < 0 then nat (max 0 (int len + i)) else min (nat i) len)"

definition py_slice :: "'a list \<Rightarrow> int \<Rightarrow> int \<Rightarrow> 'a list" where
  "py_slice xs i j = drop (py_index (length xs) i) (take (py_index (length xs) j) xs)"

definition str_of_int :: "int \<Rightarrow> string" where
  "str_of_int i = (if i < 0 then ''-'' @ str_of_nat (nat (- i)) else str_of_nat (nat i))"

definition quoted :: "string \<Rightarrow> string" where
  "quoted s = [CHR 0x27] @ s @ [CHR 0x27]"

text \<open>\<open>f"{chunk_id}"\<close>, and \<open>f"{chunk_id}<suffix>"\<close>, the id of a derived chunk.\<close>

fun id_text :: "chunk_id \<Rightarrow> string" where
  "id_text (IntId n) = str_of_nat n"
| "id_text (StrId s) = s"

definition derived_id :: "chunk_id \<Rightarrow> string \<Rightarrow> chunk_id" where
  "derived_id cid suffix = StrId (id_text cid @ suffix)"

text \<open>
  \<open>reduce_chunk_size\<close>. On the chunk of a whole document, which has one section without
  the key \<open>position\<close>, it raises \<open>KeyError\<close>. \<open>find_break\<close> is the loop over
  \<open>range(mid_point - 100, mid_point + 100)\<close> that looks for an empty line.
\<close>

definition find_break :: "string \<Rightarrow> int \<Rightarrow> int" where
  "find_break section_content mid_point =
     (case find (\<lambda>i. i < int (length section_content)
                      \<and> py_slice section_content i (i + 2) = [CHR 0x0A, CHR 0x0A])
                [mid_point - 100 .. mid_point + 99] of
        Some i \<Rightarrow> i
      | None \<Rightarrow> mid_point)"

definition reduce_planned :: "chunk \<Rightarrow> exn + chunk" where
  "reduce_planned chunk_data =
     (let secs = sections chunk_data in
      bind_err
        (if length secs > 1 then Inr (take (length secs div 2) secs)
         else (case secs of
                 [] \<Rightarrow> Inl (IndexError ''list index out of range'')
               | sec # _ \<Rightarrow>
                   (let section_content = py_slice (content chunk_data) (position sec) (end_position sec);
                        mid_point = find_break section_content (int (length section_content) div 2)
                    in Inr [sec\<lparr>title := title sec @ '' (Part 1)'',
                                 end_position := position sec + mid_point\<rparr>])))
        (\<lambda>reduced_sections.
           let reduced_content =
                 (if reduced_sections \<noteq> [] then
                    py_slice (content chunk_data)
                      (position (hd reduced_sections) - int (start_pos chunk_data))
                      (end_position (last reduced_sections) - int (start_pos chunk_data))
                  else take (length (content chunk_data) div 2) (content chunk_data))
           in Inr (chunk_data\<lparr>sections := reduced_sections,
                               estimated_input_tokens := estimate_token_count reduced_content,
                               chunk_id := derived_id (chunk_id chunk_data) ''_reduced'',
                               content := reduced_content\<rparr>)))"

fun reduce_chunk_size :: "work_chunk \<Rightarrow> exn + work_chunk" where
  "reduce_chunk_size (Planned c) = bind_err (reduce_planned c) (\<lambda>r. Inr (Planned r))"
| "reduce_chunk_size (Whole document_content) = Inl (KeyError ''position'')"

text \<open>
  \<open>create_chunk_prompt\<close>. The prompt is one f-string: a text that depends on the chunk,
  the company and the year, then \<open>previous_context\<close>, then another such text that ends
  with the chunk's content. The two texts are the parameters \<open>prompt_head\<close> and
  \<open>prompt_tail\<close>; \<open>format_item s\<close> is \<open>f"{s}"\<close> for an element of
  \<open>previous_sections\<close>. \<open>previous_context\<close> is as the source builds it.
  \<open>previous_sections\<close> is a list here; the default \<open>None\<close> of the source behaves as
  the empty list. On the chunk of a whole document, which has no key
  \<open>estimated_input_tokens\<close>, the f-string formats the default \<open>'Unknown'\<close> with the
  format \<open>,\<close> and raises \<open>ValueError\<close>.
\<close>

record template =
  prompt_head :: "chunk \<Rightarrow> string \<Rightarrow> string \<Rightarrow> string"
  prompt_tail :: "chunk \<Rightarrow> string \<Rightarrow> string \<Rightarrow> string"
  format_item :: "json \<Rightarrow> string"

text \<open>\<open>"\n".join(lines)\<close>.\<close>

fun join_lines :: "string list \<Rightarrow> string" where
  "join_lines [] = []"
| "join_lines [l] = l"
| "join_lines (l # m # ls) = l @ [CHR 0x0A] @ join_lines (m # ls)"

definition previous_context :: "template \<Rightarrow> json list \<Rightarrow> bool \<Rightarrow> string" where
  "previous_context tmpl previous_sections is_first_chunk =
     (if previous_sections \<noteq> [] \<and> \<not> is_first_chunk then
        [CHR 0x0A] @ ''## PREVIOUS PROCESSING CONTEXT'' @ [CHR 0x0A]
        @ ''The following sections have already been processed in previous chunks:'' @ [CHR 0x0A]
        @ join_lines (map (\<lambda>s. ''  - '' @ format_item tmpl s) previous_sections)
        @ [CHR 0x0A, CHR 0x0A]
        @ ''Continue processing from where the previous chunk left off.'' @ [CHR 0x0A]
      else [])"

fun create_chunk_prompt :: "template \<Rightarrow> work_chunk \<Rightarrow> string option \<Rightarrow> string option \<Rightarrow> bool
    \<Rightarrow> json list \<Rightarrow> exn + string" where
  "create_chunk_prompt tmpl (Planned c) company_name year is_first_chunk previous_sections =
     Inr (prompt_head tmpl c (str_or company_name ''COMPANY_NAME'') (str_or year ''YEAR'')
          @ previous_context tmpl previous_sections is_first_chunk
          @ prompt_tail tmpl c (str_or company_name ''COMPANY_NAME'') (str_or year ''YEAR''))"
| "create_chunk_prompt tmpl (Whole document_content) company_name year is_first_chunk previous_sections =
     Inl (ValueError (''Cannot specify '' @ quoted '','' @ '' with '' @ quoted ''s'' @ ''.''))"

text \<open>
  The remote model: \<open>self.model.generate_content(prompt)\<close> either raises (also when
  reading \<open>response.text\<close> raises) or gives a text, which \<open>json.loads\<close> parses or
  rejects with \<open>JSONDecodeError\<close> (\<open>None\<close>).
\<close>

datatype response = Raises exn | Text string "json option"

text \<open>
  The dict \<open>process_chunk_with_backtrack\<close> returns. A key that a return statement does
  not set is \<open>None\<close>.
\<close>

record chunk_result =
  success :: bool
  result :: "json option"
  completed_sections :: "json option"
  next_item :: "json option"
  remaining_chunk :: "work_chunk option"
  partial :: "bool option"
  retry_count :: "nat option"
  error :: "string option"
  raw_response :: "string option"

definition no_result :: chunk_result where
  "no_result =
     \<lparr>success = False, result = None, completed_sections = None, next_item = None,
      remaining_chunk = None, partial = None, retry_count = None, error = None,
      raw_response = None\<rparr>"

definition startswith :: "string \<Rightarrow> string \<Rightarrow> bool" where
  "startswith s p = (take (length p) s = p)"

text \<open>\<open>result.get('chunk_metadata', {}).get(k, dflt)\<close>.\<close>

definition metadata_get :: "json \<Rightarrow> string \<Rightarrow> json \<Rightarrow> exn + json" where
  "metadata_get res k dflt =
     bind_err (py_get res ''chunk_metadata'' (JObj [])) (\<lambda>m. py_get m k dflt)"

text \<open>
  \<open>[s for s in current_chunk['sections'] if f"Item {s['item_number']}" not in completed_sections]\<close>.
\<close>

definition item_label :: "section_dict \<Rightarrow> string" where
  "item_label s = ''Item '' @ (case item_number s of None \<Rightarrow> ''None'' | Some k \<Rightarrow> k)"

fun remaining_sections_of :: "section_dict list \<Rightarrow> json \<Rightarrow> exn + section_dict list" where
  "remaining_sections_of [] completed = Inr []"
| "remaining_sections_of (s # ss) completed =
     bind_err (py_in (item_label s) completed) (\<lambda>is_in.
     bind_err (remaining_sections_of ss completed) (\<lambda>rest.
     Inr (if \<not> is_in then s # rest else rest)))"

text \<open>
  The dicts of the return statements of the loop, in the order of the source: status
  \<open>completed\<close>; status \<open>partial\<close> or \<open>stopped\<close>, with sections remaining or with
  none; any other status; a text that is not JSON, at the last attempt; an exception at
  the last attempt, and the loop left with no attempt remaining.
\<close>

definition completed_result :: "json \<Rightarrow> json \<Rightarrow> json \<Rightarrow> nat \<Rightarrow> chunk_result" where
  "completed_result res cs next_expected rc =
     no_result\<lparr>success := True, result := Some res, completed_sections := Some cs,
               next_item := Some next_expected, retry_count := Some rc\<rparr>"

definition partial_result :: "chunk \<Rightarrow> json \<Rightarrow> json \<Rightarrow> section_dict list \<Rightarrow> nat \<Rightarrow> chunk_result" where
  "partial_result current_chunk res cs remaining rc =
     (if remaining \<noteq> [] then
        no_result\<lparr>success := True, result := Some res, completed_sections := Some cs,
                  remaining_chunk := Some (Planned (current_chunk
                    \<lparr>sections := remaining,
                     chunk_id := derived_id (chunk_id current_chunk) ''_continued''\<rparr>)),
                  partial := Some True, retry_count := Some rc\<rparr>
      else
        no_result\<lparr>success := True, result := Some res, completed_sections := Some cs,
                  next_item := Some JNull, retry_count := Some rc\<rparr>)"

definition unknown_status_result :: "json \<Rightarrow> nat \<Rightarrow> chunk_result" where
  "unknown_status_result res rc =
     no_result\<lparr>success := True, result := Some res, completed_sections := Some (JArr []),
               retry_count := Some rc\<rparr>"

definition raw_response_of :: "string \<Rightarrow> string" where
  "raw_response_of t = (if length t > 1000 then take 1000 t @ ''...'' else t)"

definition decode_failure :: "nat \<Rightarrow> string \<Rightarrow> chunk_result" where
  "decode_failure rc t =
     no_result\<lparr>error := Some (''JSON decode error after '' @ str_of_nat (rc + 1) @ '' attempts''),
               raw_response := Some (raw_response_of t)\<rparr>"

definition failure :: "string \<Rightarrow> nat \<Rightarrow> chunk_result" where
  "failure message rc = no_result\<lparr>error := Some message, retry_count := Some rc\<rparr>"

text \<open>
  One pass through the body of the \<open>try\<close> of the loop: it returns a result
  (\<open>Done\<close>), goes on with a reduced chunk after \<open>retry_count += 1\<close> (\<open>Again\<close>), or
  raises into \<open>except Exception\<close>. \<open>on_parsed\<close> is the part after \<open>json.loads\<close>.
  On the chunk of a whole document the prompt raises, and the rest of the body does not
  run.
\<close>

datatype outcome = Done chunk_result | Again work_chunk

definition on_parsed :: "chunk \<Rightarrow> json \<Rightarrow> nat \<Rightarrow> exn + outcome" where
  "on_parsed current_chunk res rc =
     bind_err (py_get res ''processing_status'' (JStr ''unknown'')) (\<lambda>status.
     case status of
       JStr st \<Rightarrow>
         if startswith st ''completed'' then
           bind_err (metadata_get res ''sections_completed'' (JArr [])) (\<lambda>cs.
           bind_err (metadata_get res ''next_expected_item'' JNull) (\<lambda>next_expected.
           Inr (Done (completed_result res cs next_expected rc))))
         else if startswith st ''partial'' \<or> startswith st ''stopped'' then
           bind_err (metadata_get res ''sections_completed'' (JArr [])) (\<lambda>cs.
           if truthy cs then
             bind_err (remaining_sections_of (sections current_chunk) cs) (\<lambda>remaining.
             Inr (Done (partial_result current_chunk res cs remaining rc)))
           else
             bind_err (reduce_chunk_size (Planned current_chunk)) (\<lambda>r. Inr (Again r)))
         else
           Inr (Done (unknown_status_result res rc))
     | _ \<Rightarrow> Inl (AttributeError ''object has no attribute startswith''))"

fun attempt :: "template \<Rightarrow> int \<Rightarrow> (string \<Rightarrow> response) \<Rightarrow> work_chunk \<Rightarrow> string option
    \<Rightarrow> string option \<Rightarrow> bool \<Rightarrow> json list \<Rightarrow> nat \<Rightarrow> int \<Rightarrow> exn + outcome" where
  "attempt tmpl max_tokens_per_chunk generate_content (Whole d) company_name year is_first_chunk
      previous_sections rc max_retries =
     (case create_chunk_prompt tmpl (Whole d) company_name year is_first_chunk previous_sections of
        Inl e \<Rightarrow> Inl e
      | Inr prompt \<Rightarrow> Inl (Exception ''not reached''))"
| "attempt tmpl max_tokens_per_chunk generate_content (Planned c) company_name year is_first_chunk
      previous_sections rc max_retries =
     bind_err (create_chunk_prompt tmpl (Planned c) company_name year is_first_chunk previous_sections)
       (\<lambda>prompt.
          if int (estimate_token_count prompt) > max_tokens_per_chunk then
            bind_err (reduce_chunk_size (Planned c)) (\<lambda>r. Inr (Again r))
          else
            (case generate_content prompt of
               Raises e \<Rightarrow> Inl e
             | Text t parsed \<Rightarrow>
                 if t \<noteq> [] then
                   (case parsed of
                      Some res \<Rightarrow> on_parsed c res rc
                    | None \<Rightarrow>
                        if int rc < max_retries - 1 then
                          bind_err (reduce_chunk_size (Planned c)) (\<lambda>r. Inr (Again r))
                        else Inr (Done (decode_failure rc t)))
                 else Inl (Exception ''Empty response from Gemini'')))"

text \<open>
  The loop \<open>while retry_count < max_retries\<close> with its handler \<open>except Exception\<close>.
  \<open>generate_content n\<close> is the behaviour of the model at the attempt with
  \<open>retry_count = n\<close>: an arbitrary function, so that the model may answer the same
  prompt differently each time. An exception of \<open>reduce_chunk_size\<close> inside the handler
  leaves the function (\<open>Inl\<close>).
\<close>

function backtrack_loop :: "template \<Rightarrow> int \<Rightarrow> (nat \<Rightarrow> string \<Rightarrow> response) \<Rightarrow> string option
    \<Rightarrow> string option \<Rightarrow> bool \<Rightarrow> json list \<Rightarrow> int \<Rightarrow> nat \<Rightarrow> work_chunk \<Rightarrow> exn + chunk_result" where
  "backtrack_loop tmpl max_tokens_per_chunk generate_content company_name year is_first_chunk
      previous_sections max_retries rc current_chunk =
     (if int rc < max_retries then
        (case attempt tmpl max_tokens_per_chunk (generate_content rc) current_chunk company_name year
                is_first_chunk previous_sections rc max_retries of
           Inr (Done r) \<Rightarrow> Inr r
         | Inr (Again reduced) \<Rightarrow>
             backtrack_loop tmpl max_tokens_per_chunk generate_content company_name year
               is_first_chunk previous_sections max_retries (Suc rc) reduced
         | Inl e \<Rightarrow>
             if int rc < max_retries - 1 then
               (case reduce_chunk_size current_chunk of
                  Inl e' \<Rightarrow> Inl e'
                | Inr reduced \<Rightarrow>
                    backtrack_loop tmpl max_tokens_per_chunk generate_content company_name year
                      is_first_chunk previous_sections max_retries (Suc rc) reduced)
             else Inr (failure (str_exn e) rc))
      else Inr (failure (''Failed after '' @ str_of_int max_retries @ '' attempts'') rc))"
  by pat_completeness auto
termination
  by (relation "measure (\<lambda>(tmpl, mt, g, cn, y, f, p, max_retries, rc, c). nat (max_retries - int rc))")
     auto

definition process_chunk_with_backtrack :: "template \<Rightarrow> int \<Rightarrow> (nat \<Rightarrow> string \<Rightarrow> response)
    \<Rightarrow> work_chunk \<Rightarrow> string option \<Rightarrow> string option \<Rightarrow> bool \<Rightarrow> json list \<Rightarrow> int
    \<Rightarrow> exn + chunk_result" where
  "process_chunk_with_backtrack tmpl max_tokens_per_chunk generate_content chunk_data company_name
      year is_first_chunk previous_sections max_retries =
     backtrack_loop tmpl max_tokens_per_chunk generate_content company_name year is_first_chunk
       previous_sections max_retries 0 chunk_data"

subsection \<open>What the processor returns\<close>

text \<open>
  \<open>result_shape r\<close> holds of every dict the loop returns: a result with
  \<open>success = True\<close> has a \<open>result\<close> and \<open>completed_sections\<close> and no \<open>error\<close>,
  and when it has a \<open>remaining_chunk\<close>, that chunk has sections, \<open>partial\<close> is
  \<open>True\<close> and \<open>completed_sections\<close> is a non-empty iterable; a result with
  \<open>success = False\<close> has an \<open>error\<close> and neither of the others.
\<close>

definition result_shape :: "chunk_result \<Rightarrow> bool" where
  "result_shape r \<longleftrightarrow>
     (if success r then
        result r \<noteq> None \<and> completed_sections r \<noteq> None \<and> error r = None
        \<and> (case remaining_chunk r of
              None \<Rightarrow> True
            | Some w \<Rightarrow>
                partial r = Some True
                \<and> (case w of Planned c \<Rightarrow> sections c \<noteq> [] | Whole d \<Rightarrow> False)
                \<and> (case completed_sections r of
                      Some cs \<Rightarrow> (case py_iter cs of Inr new \<Rightarrow> new \<noteq> [] | Inl e \<Rightarrow> False)
                    | None \<Rightarrow> False))
      else error r \<noteq> None \<and> remaining_chunk r = None \<and> result r = None)"

lemma reduce_planned_ok:
  assumes "sections c \<noteq> []"
  shows "\<exists>c'. reduce_planned c = Inr c' \<and> sections c' \<noteq> []"
proof (cases "length (sections c) > 1")
  case True
  then have "take (length (sections c) div 2) (sections c) \<noteq> []" by auto
  then show ?thesis using True by (simp add: reduce_planned_def Let_def)
next
  case False
  with assms obtain sec where "sections c = [sec]"
    by (cases "sections c") auto
  then show ?thesis by (simp add: reduce_planned_def Let_def)
qed

lemma remaining_sections_of_list:
  "remaining_sections_of secs (JArr cs) = Inr (filter (\<lambda>s. JStr (item_label s) \<notin> set cs) secs)"
  by (induction secs) simp_all

lemma remaining_iterable:
  "remaining_sections_of secs cs = Inr rem \<Longrightarrow> secs \<noteq> [] \<Longrightarrow> \<exists>new. py_iter cs = Inr new"
  by (cases secs; cases cs) (auto simp: bind_err_eq_Inr)

lemma remaining_nonempty:
  "remaining_sections_of secs cs = Inr rem \<Longrightarrow> rem \<noteq> [] \<Longrightarrow> secs \<noteq> []"
  by (cases secs) auto

lemma truthy_iter: "truthy cs \<Longrightarrow> py_iter cs = Inr new \<Longrightarrow> new \<noteq> []"
  by (cases cs) auto

lemma shape_completed: "result_shape (completed_result res cs ni rc)"
  by (simp add: result_shape_def completed_result_def no_result_def)

lemma shape_unknown: "result_shape (unknown_status_result res rc)"
  by (simp add: result_shape_def unknown_status_result_def no_result_def)

lemma shape_decode: "result_shape (decode_failure rc t)"
  by (simp add: result_shape_def decode_failure_def no_result_def)

lemma shape_failure: "result_shape (failure m rc)"
  by (simp add: result_shape_def failure_def no_result_def)

lemma shape_partial:
  assumes "truthy cs" "remaining_sections_of (sections c) cs = Inr rem"
  shows "result_shape (partial_result c res cs rem rc)"
proof (cases "rem = []")
  case True
  then show ?thesis by (simp add: result_shape_def partial_result_def no_result_def)
next
  case False
  from remaining_iterable[OF assms(2) remaining_nonempty[OF assms(2) False]] obtain new where
    n: "py_iter cs = Inr new" by blast
  with truthy_iter[OF assms(1) n] False show ?thesis
    by (simp add: result_shape_def partial_result_def no_result_def)
qed

lemma on_parsed_status:
  assumes "py_get res ''processing_status'' (JStr ''unknown'') = Inr (JStr st)"
  shows "on_parsed c res rc =
         (if startswith st ''completed'' then
           bind_err (metadata_get res ''sections_completed'' (JArr [])) (\<lambda>cs.
           bind_err (metadata_get res ''next_expected_item'' JNull) (\<lambda>next_expected.
           Inr (Done (completed_result res cs next_expected rc))))
         else if startswith st ''partial'' \<or> startswith st ''stopped'' then
           bind_err (metadata_get res ''sections_completed'' (JArr [])) (\<lambda>cs.
           if truthy cs then
             bind_err (remaining_sections_of (sections c) cs) (\<lambda>remaining.
             Inr (Done (partial_result c res cs remaining rc)))
           else
             bind_err (reduce_chunk_size (Planned c)) (\<lambda>r. Inr (Again r)))
         else
           Inr (Done (unknown_status_result res rc)))"
  by (simp add: on_parsed_def assms)

lemma on_parsed_no_status:
  assumes "py_get res ''processing_status'' (JStr ''unknown'') = Inr status" "\<forall>st. status \<noteq> JStr st"
  shows "on_parsed c res rc = Inl (AttributeError ''object has no attribute startswith'')"
  using assms by (cases status) (simp_all add: on_parsed_def)

lemma on_parsed_shape:
  assumes "on_parsed c res rc = Inr (Done r)"
  shows "result_shape r"
proof (cases "py_get res ''processing_status'' (JStr ''unknown'')")
  case (Inl e)
  with assms show ?thesis by (simp add: on_parsed_def)
next
  case (Inr status)
  show ?thesis
  proof (cases "\<exists>st. status = JStr st")
    case False
    with on_parsed_no_status[OF Inr, of c rc] assms show ?thesis by simp
  next
    case True
    then obtain st where "status = JStr st" by blast
    with Inr have "py_get res ''processing_status'' (JStr ''unknown'') = Inr (JStr st)" by simp
    from assms[unfolded on_parsed_status[OF this]] show ?thesis
      using shape_completed shape_unknown shape_partial
      by (auto simp: bind_err_eq_Inr split: if_splits)
  qed
qed

lemma attempt_shape:
  assumes "attempt tmpl mt g w cn y first prev rc mr = Inr (Done r)"
  shows "result_shape r"
proof (cases w)
  case (Whole d)
  with assms show ?thesis by simp
next
  case (Planned c)
  with assms show ?thesis
    using on_parsed_shape shape_decode
    by (auto simp: bind_err_eq_Inr split: if_splits response.splits option.splits)
qed

lemma backtrack_loop_shape:
  "backtrack_loop tmpl mt g cn y first prev mr rc w = Inr r \<Longrightarrow> result_shape r"
proof (induction tmpl mt g cn y first prev mr rc w rule: backtrack_loop.induct)
  case (1 tmpl mt g cn y first prev mr rc w)
  show ?case
  proof (cases "int rc < mr")
    case False
    with "1.prems" show ?thesis
      by (subst (asm) backtrack_loop.simps) (auto simp: shape_failure)
  next
    case True
    note lt = this
    show ?thesis
    proof (cases "attempt tmpl mt (g rc) w cn y first prev rc mr")
      case (Inr out)
      show ?thesis
      proof (cases out)
        case (Done r')
        with "1.prems" lt Inr have "r' = r"
          by (subst (asm) backtrack_loop.simps) simp
        with attempt_shape Inr Done show ?thesis by blast
      next
        case (Again w')
        with "1.prems" lt Inr have "backtrack_loop tmpl mt g cn y first prev mr (Suc rc) w' = Inr r"
          by (subst (asm) backtrack_loop.simps) simp
        with "1.IH"(2)[OF lt Inr Again] show ?thesis by blast
      qed
    next
      case (Inl e)
      show ?thesis
      proof (cases "int rc < mr - 1")
        case False
        with "1.prems" lt Inl show ?thesis
          by (subst (asm) backtrack_loop.simps) (auto simp: shape_failure)
      next
        case l2: True
        show ?thesis
        proof (cases "reduce_chunk_size w")
          case e2: (Inl e')
          with "1.prems" lt Inl l2 show ?thesis
            by (subst (asm) backtrack_loop.simps) simp
        next
          case w2: (Inr w')
          with "1.prems" lt Inl l2 have
            "backtrack_loop tmpl mt g cn y first prev mr (Suc rc) w' = Inr r"
            by (subst (asm) backtrack_loop.simps) simp
          with "1.IH"(1)[OF lt Inl l2 w2] show ?thesis by blast
        qed
      qed
    qed
  qed
qed

lemma reduce_chunk_size_planned:
  assumes "sections c \<noteq> []"
  shows "\<exists>c'. reduce_chunk_size (Planned c) = Inr (Planned c') \<and> sections c' \<noteq> []"
  using reduce_planned_ok[OF assms] by auto

lemma on_parsed_again:
  assumes "on_parsed c res rc = Inr (Again w')"
  shows "reduce_chunk_size (Planned c) = Inr w'"
proof (cases "py_get res ''processing_status'' (JStr ''unknown'')")
  case (Inl e)
  with assms show ?thesis by (simp add: on_parsed_def)
next
  case (Inr status)
  show ?thesis
  proof (cases "\<exists>st. status = JStr st")
    case False
    with on_parsed_no_status[OF Inr, of c rc] assms show ?thesis by simp
  next
    case True
    then obtain st where "status = JStr st" by blast
    with Inr have "py_get res ''processing_status'' (JStr ''unknown'') = Inr (JStr st)" by simp
    from assms[unfolded on_parsed_status[OF this]] show ?thesis
      by (auto simp: bind_err_eq_Inr split: if_splits)
  qed
qed

lemma attempt_again:
  assumes "attempt tmpl mt g (Planned c) cn y first prev rc mr = Inr (Again w')"
  shows "reduce_chunk_size (Planned c) = Inr w'"
  using assms on_parsed_again
  by (auto simp: bind_err_eq_Inr split: if_splits response.splits option.splits)

lemma attempt_whole:
  "attempt tmpl mt g (Whole d) cn y first prev rc mr
     = Inl (ValueError (''Cannot specify '' @ quoted '','' @ '' with '' @ quoted ''s'' @ ''.''))"
  by simp

lemma backtrack_loop_planned_returns:
  "sections c \<noteq> [] \<Longrightarrow>
   \<exists>r. backtrack_loop tmpl mt g cn y first prev mr rc (Planned c) = Inr r"
proof (induction "nat (mr - int rc)" arbitrary: rc c)
  case 0
  then have "\<not> int rc < mr" by simp
  then show ?case by (subst backtrack_loop.simps) simp
next
  case (Suc n)
  then have lt: "int rc < mr" and n: "n = nat (mr - int (Suc rc))" by simp_all
  show ?case
  proof (cases "attempt tmpl mt (g rc) (Planned c) cn y first prev rc mr")
    case (Inr out)
    show ?thesis
    proof (cases out)
      case (Done r')
      with lt Inr show ?thesis by (subst backtrack_loop.simps) simp
    next
      case (Again w')
      with attempt_again Inr have "reduce_chunk_size (Planned c) = Inr w'" by blast
      with reduce_chunk_size_planned[OF Suc.prems] obtain c' where
        c': "w' = Planned c'" "sections c' \<noteq> []" by auto
      from Suc.hyps(1)[OF n c'(2)] obtain r where
        "backtrack_loop tmpl mt g cn y first prev mr (Suc rc) (Planned c') = Inr r" by blast
      with lt Inr Again c'(1) show ?thesis by (subst backtrack_loop.simps) simp
    qed
  next
    case (Inl e)
    show ?thesis
    proof (cases "int rc < mr - 1")
      case False
      with lt Inl show ?thesis by (subst backtrack_loop.simps) simp
    next
      case True
      from reduce_chunk_size_planned[OF Suc.prems] obtain c' where
        c': "reduce_chunk_size (Planned c) = Inr (Planned c')" "sections c' \<noteq> []" by blast
      from Suc.hyps(1)[OF n c'(2)] obtain r where
        "backtrack_loop tmpl mt g cn y first prev mr (Suc rc) (Planned c') = Inr r" by blast
      with lt Inl True c'(1) show ?thesis by (subst backtrack_loop.simps) simp
    qed
  qed
qed

lemma backtrack_whole_escapes:
  "backtrack_loop tmpl mt g cn y first prev 3 0 (Whole d) = Inl (KeyError ''position'')"
  by (subst backtrack_loop.simps) simp

lemma truthy_JArr: "truthy (JArr cs) \<longleftrightarrow> cs \<noteq> []"
  by (cases cs) simp_all

lemma startswith_excl:
  "startswith st ''partial'' \<or> startswith st ''stopped'' \<Longrightarrow> \<not> startswith st ''completed''"
  by (cases st) (auto simp: startswith_def)

lemma backtrack_loop_partial:
  assumes "int rc < max_retries"
    and "create_chunk_prompt tmpl (Planned c) company_name year is_first previous = Inr prompt"
    and "int (estimate_token_count prompt) \<le> max_tokens_per_chunk"
    and "generate_content rc prompt = Text t (Some res)" and "t \<noteq> []"
    and "py_get res ''processing_status'' (JStr ''unknown'') = Inr (JStr st)"
    and "startswith st ''partial'' \<or> startswith st ''stopped''"
    and "metadata_get res ''sections_completed'' (JArr []) = Inr (JArr cs)" and "cs \<noteq> []"
  shows "backtrack_loop tmpl max_tokens_per_chunk generate_content company_name year is_first
           previous max_retries rc (Planned c)
         = Inr (partial_result c res (JArr cs)
                  (filter (\<lambda>s. JStr (item_label s) \<notin> set cs) (sections c)) rc)"
proof -
  have o: "on_parsed c res rc = Inr (Done (partial_result c res (JArr cs)
                  (filter (\<lambda>s. JStr (item_label s) \<notin> set cs) (sections c)) rc))"
    using assms(7,8,9) startswith_excl[OF assms(7)]
    by (simp add: on_parsed_status[OF assms(6)] remaining_sections_of_list)
  have a: "attempt tmpl max_tokens_per_chunk (generate_content rc) (Planned c) company_name year
             is_first previous rc max_retries = Inr (Done (partial_result c res (JArr cs)
                  (filter (\<lambda>s. JStr (item_label s) \<notin> set cs) (sections c)) rc))"
    using assms(2-5) o by (simp del: create_chunk_prompt.simps)
  show ?thesis
    by (subst backtrack_loop.simps) (simp add: assms(1) a del: attempt.simps)
qed

section \<open>Pipeline of one filing\<close>

text \<open>
  \<open>process_full_document\<close>, the fallback: the whole document goes to the model behind
  the system prompt. Its handler raises a new \<open>Exception\<close> around every exception of
  its body.
\<close>

definition process_full_document :: "string \<Rightarrow> (string \<Rightarrow> response) \<Rightarrow> string \<Rightarrow> exn + string" where
  "process_full_document system_prompt generate_content document_content =
     (case (case generate_content (system_prompt @ [CHR 0x0A, CHR 0x0A] @ document_content) of
              Raises e \<Rightarrow> Inl e
            | Text t parsed \<Rightarrow>
                if t \<noteq> [] then Inr t else Inl (Exception ''Empty response received from Gemini''))
      of Inl e \<Rightarrow> Inl (Exception (''Error processing with Gemini: '' @ str_exn e))
       | Inr t \<Rightarrow> Inr t)"

text \<open>
  The values the loop of \<open>process_with_gemini\<close> appends to \<open>all_results\<close> are JSON
  values: the parsed answer of the model for a chunk that succeeded, and for one that
  failed the dict \<open>failed_chunk_info\<close>, which holds the chunk's section dicts.
\<close>

definition section_json :: "section_dict \<Rightarrow> json" where
  "section_json s =
     JObj [(''item_number'', (case item_number s of None \<Rightarrow> JNull | Some k \<Rightarrow> JStr k)),
           (''title'', JStr (title s)),
           (''position'', JInt (position s)),
           (''end_position'', JInt (end_position s)),
           (''estimated_tokens'', JInt (int (estimated_tokens s))),
           (''confidence'', JFloat (confidence s))]"

fun work_id :: "work_chunk \<Rightarrow> chunk_id" where
  "work_id (Planned c) = chunk_id c"
| "work_id (Whole document_content) = IntId 1"

fun work_sections :: "work_chunk \<Rightarrow> json list" where
  "work_sections (Planned c) = map section_json (sections c)"
| "work_sections (Whole document_content) =
     [JObj [(''item_number'', JStr ''ALL''), (''title'', JStr ''Complete Document'')]]"

definition failed_chunk_info :: "work_chunk \<Rightarrow> chunk_result \<Rightarrow> json" where
  "failed_chunk_info current_chunk r =
     JObj [(''chunk_id'', JStr (''FAILED_'' @ id_text (work_id current_chunk))),
           (''error'', (case error r of None \<Rightarrow> JNull | Some e \<Rightarrow> JStr e)),
           (''sections'', JArr (work_sections current_chunk)),
           (''raw_response'', JStr (case raw_response r of None \<Rightarrow> [] | Some t \<Rightarrow> t))]"

text \<open>
  The loop \<open>while chunk_queue\<close> on \<open>all_results\<close>, \<open>completed_sections\<close> (the list
  \<open>completed\<close>), \<open>chunk_queue\<close> and \<open>chunk_num\<close>. The model may answer the same prompt
  differently each time: \<open>generate_content n k\<close> is its behaviour at the attempt with
  \<open>retry_count = k\<close> on the chunk with \<open>chunk_num = n\<close>. The loop is a partial
  function: \<open>None\<close> stands for a loop that runs forever. An exception leaves the loop.
  \<open>completed_sections.extend(x)\<close> raises \<open>TypeError\<close> when \<open>x\<close> is not iterable.
\<close>

partial_function (option) chunk_loop :: "template \<Rightarrow> int \<Rightarrow> (nat \<Rightarrow> nat \<Rightarrow> string \<Rightarrow> response)
    \<Rightarrow> string option \<Rightarrow> string option \<Rightarrow> json list \<Rightarrow> json list \<Rightarrow> work_chunk list \<Rightarrow> nat
    \<Rightarrow> (exn + json list \<times> json list) option" where
  "chunk_loop tmpl max_tokens_per_chunk generate_content company_name year all_results completed
      chunk_queue chunk_num =
     (case chunk_queue of
        [] \<Rightarrow> Some (Inr (all_results, completed))
      | current_chunk # rest \<Rightarrow>
          (case process_chunk_with_backtrack tmpl max_tokens_per_chunk
                  (generate_content (chunk_num + 1)) current_chunk company_name year
                  (chunk_num + 1 = 1) completed 3 of
             Inl e \<Rightarrow> Some (Inl e)
           | Inr r \<Rightarrow>
               if success r then
                 (case result r of
                    None \<Rightarrow> Some (Inl (KeyError ''result''))
                  | Some res \<Rightarrow>
                      (case (case completed_sections r of None \<Rightarrow> Inr [] | Some cs \<Rightarrow> py_iter cs) of
                         Inl e \<Rightarrow> Some (Inl e)
                       | Inr new \<Rightarrow>
                           chunk_loop tmpl max_tokens_per_chunk generate_content company_name year
                             (all_results @ [res]) (completed @ new)
                             (case remaining_chunk r of
                                Some remaining \<Rightarrow> if partial r = Some True then remaining # rest else rest
                              | None \<Rightarrow> rest)
                             (chunk_num + 1)))
               else
                 chunk_loop tmpl max_tokens_per_chunk generate_content company_name year
                   (all_results @ [failed_chunk_info current_chunk r]) completed rest (chunk_num + 1)))"

text \<open>
  \<open>process_with_gemini\<close>. It returns a string: the JSON text of the combined filing
  (\<open>Structured\<close>, \<open>json.dumps\<close> of the dict) or the text the model gave for the whole
  document (\<open>RawText\<close>). \<open>extract_company_info\<close> searches the document with regular
  expressions and is the parameter \<open>company_info\<close>; it returns two strings. Every
  exception of the body ends in \<open>process_full_document\<close>, whose own exception leaves
  \<open>process_with_gemini\<close>. \<open>full_content\<close> is the behaviour of the model at the call of
  \<open>process_full_document\<close>.
\<close>

datatype filing_text = Structured json | RawText string

definition full_document_output :: "string \<Rightarrow> (string \<Rightarrow> response) \<Rightarrow> string \<Rightarrow> exn + filing_text" where
  "full_document_output system_prompt full_content document_content =
     (case process_full_document system_prompt full_content document_content of
        Inl e \<Rightarrow> Inl e
      | Inr t \<Rightarrow> Inr (RawText t))"

definition process_with_gemini :: "pylib \<Rightarrow> rounding \<Rightarrow> (string \<Rightarrow> string \<times> string)
    \<Rightarrow> (string \<Rightarrow> string option) \<Rightarrow> string \<Rightarrow> template \<Rightarrow> int \<Rightarrow> string
    \<Rightarrow> (nat \<Rightarrow> nat \<Rightarrow> string \<Rightarrow> response) \<Rightarrow> (string \<Rightarrow> response) \<Rightarrow> string
    \<Rightarrow> (exn + filing_text) option" where
  "process_with_gemini lib rnd company_info item_search now tmpl max_tokens_per_chunk system_prompt
      generate_content full_content document_content =
     (case company_info document_content of (company_name, year) \<Rightarrow>
        (let processing_chunks = extract_sections_dynamic lib rnd system_prompt document_content in
         if processing_chunks = [] then
           Some (full_document_output system_prompt full_content document_content)
         else
           (case chunk_loop tmpl max_tokens_per_chunk generate_content (Some company_name) (Some year)
                   [] [] processing_chunks 0 of
              None \<Rightarrow> None
            | Some (Inl e) \<Rightarrow> Some (full_document_output system_prompt full_content document_content)
            | Some (Inr (all_results, completed)) \<Rightarrow>
                (case combine_incremental_results item_search now all_results
                        (Some company_name) (Some year) of
                   Inl e \<Rightarrow> Some (full_document_output system_prompt full_content document_content)
                 | Inr combined \<Rightarrow> Some (Inr (Structured combined))))))"

end
